theory Spec2Isabelle
  imports Complex_Main "HOL-Library.Word" "HOL-Library.Multiset"
begin

section \<open>Strings and suggestions\<close>

text \<open>
  A JavaScript string is a sequence of UTF-16 code units; \<open>length\<close>, \<open>charAt\<close>,
  \<open>startsWith\<close>, \<open>substring\<close> and the character class of the diacritics' regular
  expression (the code units 0x0300 to 0x036F) all work on code units.
\<close>

type_synonym jsstring = "16 word list"

definition str :: "string \<Rightarrow> jsstring" where
  \<comment> \<open>an ASCII literal as code units\<close>
  "str s = map (\<lambda>c. of_nat (of_char c)) s"

definition charAt :: "jsstring \<Rightarrow> nat \<Rightarrow> jsstring" where
  \<comment> \<open>\<open>s.charAt(i)\<close>: the code unit at \<open>i\<close> as a string, the empty string out of range\<close>
  "charAt s i = take 1 (drop i s)"

definition startsWith :: "jsstring \<Rightarrow> jsstring \<Rightarrow> bool" where
  \<comment> \<open>\<open>s.startsWith(q)\<close>\<close>
  "startsWith s q = (take (length q) s = q)"

definition substring :: "jsstring \<Rightarrow> nat \<Rightarrow> nat \<Rightarrow> jsstring" where
  \<comment> \<open>\<open>s.substring(a, b)\<close>: both indices are clamped to the length, and swapped when \<open>a > b\<close>\<close>
  "substring s a b =
     (let a' = min a (length s); b' = min b (length s)
      in take (max a' b' - min a' b') (drop (min a' b') s))"

type_synonym EditorPosition = "nat \<times> nat"

record Suggestion =
  displayName :: jsstring
  replacement :: jsstring
  overrideStart :: "EditorPosition option"

definition fromString :: "jsstring \<Rightarrow> Suggestion" where
  \<comment> \<open>Modelled from the spec: \<open>Suggestion.fromString\<close> of provider.ts, which is not among the
      sources. The spec's data model gives a suggestion a display name and a replacement, and
      a suggestion made from a plain string replaces verbatim: both are the string, and no
      override position is set.\<close>
  "fromString s = \<lparr>displayName = s, replacement = s, overrideStart = None\<rparr>"

subsection \<open>Array.prototype.sort\<close>

text \<open>
  \<open>xs.sort(cmp)\<close> is a stable sort (ECMAScript 2019): an element moves in front of another
  only when the comparator is positive for the pair. Insertion from the right is that sort.
\<close>

fun insert_sorted :: "('a \<Rightarrow> 'a \<Rightarrow> int) \<Rightarrow> 'a \<Rightarrow> 'a list \<Rightarrow> 'a list" where
  "insert_sorted cmp x [] = [x]"
| "insert_sorted cmp x (y # ys) =
     (if cmp x y \<le> 0 then x # y # ys else y # insert_sorted cmp x ys)"

fun array_sort :: "('a \<Rightarrow> 'a \<Rightarrow> int) \<Rightarrow> 'a list \<Rightarrow> 'a list" where
  "array_sort cmp [] = []"
| "array_sort cmp (x # xs) = insert_sorted cmp x (array_sort cmp xs)"

section \<open>Settings\<close>

datatype WordInsertionMode = MATCH_CASE_REPLACE | IGNORE_CASE_REPLACE | IGNORE_CASE_APPEND

text \<open>
  A JavaScript number that reaches the provider from the settings: a finite value (every
  finite double is a rational), a NaN or an infinity.
\<close>

datatype jsnumber = Num rat | NaN | PosInfinity | NegInfinity

definition double_0_7 :: rat where
  \<comment> \<open>the double that the literal \<open>0.7\<close> denotes\<close>
  "double_0_7 = 3152519739159347 / 4503599627370496"

record CompletrSettings =
  minWordTriggerLength :: int
  wordInsertionMode :: WordInsertionMode
  ignoreDiacriticsWhenFiltering :: bool
  llmProviderEnabled :: bool
  llmApiUrl :: jsstring
  llmApiKey :: jsstring
  llmModel :: jsstring
  llmTemperature :: jsnumber
  llmRequestTimeout :: jsnumber

section \<open>The dictionary provider\<close>

text \<open>
  The string functions of the platform and of editor\_helpers.ts that dictionary\_provider.ts
  calls and the sources do not contain: \<open>maybeLowerCase(str, lowerCase)\<close>,
  \<open>String.prototype.toUpperCase\<close> and \<open>String.prototype.normalize("NFD")\<close>. Every theorem
  below holds for all of them.
\<close>

record string_ops =
  maybeLowerCase :: "jsstring \<Rightarrow> bool \<Rightarrow> jsstring"
  toUpperCase :: "jsstring \<Rightarrow> jsstring"
  normalizeNFD :: "jsstring \<Rightarrow> jsstring"

definition DIACRITICS_REGEX :: "16 word \<Rightarrow> bool" where
  "DIACRITICS_REGEX c = (0x300 \<le> c \<and> c \<le> 0x36F)"

definition removeDiacritics :: "string_ops \<Rightarrow> jsstring \<Rightarrow> jsstring" where
  "removeDiacritics ops s = filter (\<lambda>c. \<not> DIACRITICS_REGEX c) (normalizeNFD ops s)"

definition normalized :: "string_ops \<Rightarrow> bool \<Rightarrow> bool \<Rightarrow> jsstring \<Rightarrow> jsstring" where
  \<comment> \<open>the two normalisation steps that \<open>getSuggestions\<close> applies to the query and
      \<open>filterIterable\<close> to every word\<close>
  "normalized ops ignoreCase ignoreDiacritics val =
     (let n = maybeLowerCase ops val ignoreCase
      in if ignoreDiacritics then removeDiacritics ops n else n)"

definition filterIterable ::
  "string_ops \<Rightarrow> jsstring list \<Rightarrow> jsstring \<Rightarrow> bool \<Rightarrow> bool \<Rightarrow> jsstring list" where
  "filterIterable ops iterable q ignoreCase ignoreDiacritics =
     filter (\<lambda>val. startsWith (normalized ops ignoreCase ignoreDiacritics val) q) iterable"

record SuggestionCache =
  cache_query :: jsstring
  cache_ignoreCase :: bool
  cache_ignoreDiacritics :: bool
  cache_firstChar :: jsstring
  cache_matches :: "jsstring list"

text \<open>
  A provider is its word map (a \<open>Map\<close> from a first character to the words under it, in
  insertion order), its \<open>isEnabled\<close> and the single cache entry, \<open>null\<close> at first.
\<close>

record DictionaryProvider =
  wordMap :: "(jsstring \<times> jsstring list) list"
  isEnabled :: "CompletrSettings \<Rightarrow> bool"
  suggestionCache :: "SuggestionCache option"

datatype SuggestionTriggerSource = manual | auto | unknown

text \<open>
  The context of one query: the text typed since the last separator, the separator
  (\<open>None\<close> while it is \<open>undefined\<close> or \<open>null\<close>), why the query fired, and what the editor
  holds from the start of the document to the cursor \<open>end\<close> (all that the providers read of
  \<open>editor\<close> and \<open>end\<close>).
\<close>

record SuggestionContext =
  query :: jsstring
  separatorChar :: "jsstring option"
  triggerSource :: SuggestionTriggerSource
  docBeforeCursor :: jsstring

definition wordMap_get :: "(jsstring \<times> jsstring list) list \<Rightarrow> jsstring \<Rightarrow> jsstring list" where
  \<comment> \<open>\<open>this.wordMap.get(k) ?? []\<close>\<close>
  "wordMap_get wm k = (case map_of wm k of None \<Rightarrow> [] | Some v \<Rightarrow> v)"

definition diacriticBuckets ::
  "string_ops \<Rightarrow> (jsstring \<times> jsstring list) list \<Rightarrow> bool \<Rightarrow> jsstring \<Rightarrow> jsstring list list" where
  \<comment> \<open>the loop over \<open>this.wordMap.entries()\<close>\<close>
  "diacriticBuckets ops wm ignoreCase firstChar =
     map snd (filter (\<lambda>(key, value).
        removeDiacritics ops (maybeLowerCase ops (charAt key 0) ignoreCase) = firstChar) wm)"

definition candidateLists ::
  "string_ops \<Rightarrow> (jsstring \<times> jsstring list) list \<Rightarrow> bool \<Rightarrow> bool \<Rightarrow> jsstring \<Rightarrow> jsstring list list" where
  \<comment> \<open>the array of arrays \<open>list\<close>\<close>
  "candidateLists ops wm ignoreCase ignoreDiacritics firstChar =
     (if ignoreCase then [wordMap_get wm firstChar, wordMap_get wm (toUpperCase ops firstChar)]
      else [wordMap_get wm firstChar])
     @ (if ignoreDiacritics then diacriticBuckets ops wm ignoreCase firstChar else [])"

definition scanLists :: "string_ops \<Rightarrow> jsstring list list \<Rightarrow> jsstring \<Rightarrow> bool \<Rightarrow> bool \<Rightarrow> jsstring list" where
  \<comment> \<open>\<open>for (let el of list) matches.push(...filterIterable(el, ...))\<close>\<close>
  "scanLists ops list q ignoreCase ignoreDiacritics =
     concat (map (\<lambda>el. filterIterable ops el q ignoreCase ignoreDiacritics) list)"

definition canReuseCache ::
  "SuggestionCache option \<Rightarrow> bool \<Rightarrow> bool \<Rightarrow> jsstring \<Rightarrow> jsstring \<Rightarrow> bool" where
  "canReuseCache cached ignoreCase ignoreDiacritics firstChar q =
     (case cached of
        None \<Rightarrow> False
      | Some c \<Rightarrow> cache_ignoreCase c = ignoreCase \<and> cache_ignoreDiacritics c = ignoreDiacritics
                 \<and> cache_firstChar c = firstChar \<and> startsWith q (cache_query c))"

definition computeMatches ::
  "string_ops \<Rightarrow> SuggestionCache option \<Rightarrow> bool \<Rightarrow> jsstring list list \<Rightarrow>
   jsstring \<Rightarrow> bool \<Rightarrow> bool \<Rightarrow> jsstring list" where
  \<comment> \<open>the array \<open>matches\<close>: filtered from \<open>cached!.matches\<close> when the cache can be reused
      (the cache is not \<open>null\<close> then), scanned from the candidate lists otherwise\<close>
  "computeMatches ops cached canReuse list q ignoreCase ignoreDiacritics =
     (case cached of
        Some c \<Rightarrow>
          if canReuse then filterIterable ops (cache_matches c) q ignoreCase ignoreDiacritics
          else scanLists ops list q ignoreCase ignoreDiacritics
      | None \<Rightarrow> scanLists ops list q ignoreCase ignoreDiacritics)"

definition mapSuggestion :: "WordInsertionMode \<Rightarrow> jsstring \<Rightarrow> jsstring \<Rightarrow> jsstring \<Rightarrow> Suggestion" where
  \<comment> \<open>in append mode the typed query is kept and the rest of the word is appended\<close>
  "mapSuggestion mode typed q s =
     (if mode = IGNORE_CASE_APPEND then fromString (typed @ substring s (length q) (length s))
      else fromString s)"

definition byDisplayNameLength :: "Suggestion \<Rightarrow> Suggestion \<Rightarrow> int" where
  \<comment> \<open>\<open>(a, b) => a.displayName.length - b.displayName.length\<close>\<close>
  "byDisplayNameLength a b = int (length (displayName a)) - int (length (displayName b))"

definition earlyExit :: "DictionaryProvider \<Rightarrow> SuggestionContext \<Rightarrow> CompletrSettings \<Rightarrow> bool" where
  \<comment> \<open>the guard of the first \<open>return []\<close>; an empty string is the falsy query\<close>
  "earlyExit p context settings =
     (if isEnabled p settings
      then (if query context = [] then True
            else int (length (query context)) < minWordTriggerLength settings)
      else True)"

definition getSuggestions ::
  "string_ops \<Rightarrow> DictionaryProvider \<Rightarrow> SuggestionContext \<Rightarrow> CompletrSettings \<Rightarrow>
   Suggestion list \<times> DictionaryProvider" where
  "getSuggestions ops p context settings =
     (if earlyExit p context settings then ([], p)
      else
        let ignoreCase = (wordInsertionMode settings \<noteq> MATCH_CASE_REPLACE);
            ignoreDiacritics = ignoreDiacriticsWhenFiltering settings;
            q = normalized ops ignoreCase ignoreDiacritics (query context);
            firstChar = charAt q 0;
            cached = suggestionCache p;
            canReuse = canReuseCache cached ignoreCase ignoreDiacritics firstChar q;
            p1 = (if canReuse then p else p\<lparr>suggestionCache := None\<rparr>);
            list = candidateLists ops (wordMap p) ignoreCase ignoreDiacritics firstChar
        in if length list < 1 then ([], p1)
           else
             let matches = computeMatches ops cached canReuse list q ignoreCase ignoreDiacritics;
                 result = map (mapSuggestion (wordInsertionMode settings) (query context) q) matches
             in (array_sort byDisplayNameLength result,
                 p1\<lparr>suggestionCache := Some \<lparr>cache_query = q, cache_ignoreCase = ignoreCase,
                      cache_ignoreDiacritics = ignoreDiacritics, cache_firstChar = firstChar,
                      cache_matches = matches\<rparr>\<rparr>))"

subsection \<open>Consistency of the cache\<close>

text \<open>
  The cache entry is consistent with a word map when its matches are what a scan of that
  map's candidate lists gives for the cached query and flags. The empty cache is consistent.
\<close>

definition cacheConsistent :: "string_ops \<Rightarrow> (jsstring \<times> jsstring list) list \<Rightarrow> SuggestionCache option \<Rightarrow> bool" where
  "cacheConsistent ops wm cached =
     (case cached of
        None \<Rightarrow> True
      | Some c \<Rightarrow> cache_matches c =
          scanLists ops
            (candidateLists ops wm (cache_ignoreCase c) (cache_ignoreDiacritics c) (cache_firstChar c))
            (cache_query c) (cache_ignoreCase c) (cache_ignoreDiacritics c))"

definition afterQueries ::
  "string_ops \<Rightarrow> DictionaryProvider \<Rightarrow> (SuggestionContext \<times> CompletrSettings) list \<Rightarrow>
   DictionaryProvider" where
  \<comment> \<open>the provider after a sequence of calls of \<open>getSuggestions\<close>\<close>
  "afterQueries ops p calls =
     foldl (\<lambda>p' (context, settings). snd (getSuggestions ops p' context settings)) p calls"

subsection \<open>A platform for ASCII text, and the default settings\<close>

text \<open>
  On ASCII text lower-casing and upper-casing shift the letters and canonical decomposition
  changes nothing. These instances serve the concrete scenarios.
\<close>

definition ascii_toLowerCase :: "jsstring \<Rightarrow> jsstring" where
  "ascii_toLowerCase s = map (\<lambda>c. if 0x41 \<le> c \<and> c \<le> 0x5A then c + 0x20 else c) s"

definition ascii_toUpperCase :: "jsstring \<Rightarrow> jsstring" where
  "ascii_toUpperCase s = map (\<lambda>c. if 0x61 \<le> c \<and> c \<le> 0x7A then c - 0x20 else c) s"

definition ascii_ops :: string_ops where
  "ascii_ops = \<lparr>maybeLowerCase = (\<lambda>s lowerCase. if lowerCase then ascii_toLowerCase s else s),
                toUpperCase = ascii_toUpperCase,
                normalizeNFD = (\<lambda>s. s)\<rparr>"

definition DEFAULT_SETTINGS :: CompletrSettings where
  "DEFAULT_SETTINGS = \<lparr>minWordTriggerLength = 3,
     wordInsertionMode = IGNORE_CASE_REPLACE,
     ignoreDiacriticsWhenFiltering = False,
     llmProviderEnabled = True,
     llmApiUrl = str ''http://127.0.0.1:5000/v1/chat/completions'',
     llmApiKey = [],
     llmModel = [],
     llmTemperature = Num double_0_7,
     llmRequestTimeout = Num 10000\<rparr>"

definition wor_words :: DictionaryProvider where
  "wor_words = \<lparr>wordMap = [(str ''w'', [str ''word'', str ''world'', str ''work''])],
                 isEnabled = (\<lambda>settings. True),
                 suggestionCache = None\<rparr>"

definition typing :: "string \<Rightarrow> SuggestionContext" where
  "typing s = \<lparr>query = str s, separatorChar = Some (str '' ''), triggerSource = auto,
                docBeforeCursor = str '' '' @ str s\<rparr>"

definition wo_cached :: DictionaryProvider where
  "wo_cached = snd (getSuggestions ascii_ops wor_words (typing ''wo'')
                      (DEFAULT_SETTINGS\<lparr>minWordTriggerLength := 2\<rparr>))"


section \<open>The aggregator: SuggestionPopup.getSuggestions\<close>

text \<open>
  What a call of a provider's \<open>getSuggestions\<close> does: it throws, it returns a list (or
  \<open>null\<close>/\<open>undefined\<close>), or it returns a promise, which later resolves with a list (or
  \<open>null\<close>/\<open>undefined\<close>) or rejects.
\<close>

datatype promise_outcome = Resolves "Suggestion list option" | Rejects

datatype provider_return =
  Throws | Returns "Suggestion list option" | ReturnsPromise promise_outcome

record SuggestionProvider =
  blocksAllOtherProviders :: bool
  call_getSuggestions :: "SuggestionContext \<Rightarrow> CompletrSettings \<Rightarrow> provider_return"

datatype aggregate_error = ProviderThrew nat

text \<open>
  The locals of \<open>getSuggestions\<close> and the one field of the popup it writes,
  \<open>this.context.start\<close>. A pending task is the index of its provider, the provider's
  blocking flag and the outcome of the provider's promise.
\<close>

type_synonym async_task = "nat \<times> bool \<times> promise_outcome"

record aggregation =
  providerResults :: "Suggestion list option list"
  pendingAsync :: "async_task list"
  blockingIndex :: "nat option"
  contextStart :: EditorPosition

definition orEmpty :: "Suggestion list option \<Rightarrow> Suggestion list" where
  \<comment> \<open>\<open>value ?? []\<close>\<close>
  "orEmpty r = (case r of None \<Rightarrow> [] | Some xs \<Rightarrow> xs)"

definition fixPopupPosition :: "Suggestion list \<Rightarrow> EditorPosition \<Rightarrow> EditorPosition" where
  \<comment> \<open>the \<open>forEach\<close> that writes \<open>this.context.start\<close> for every suggestion with an
      \<open>overrideStart\<close>\<close>
  "fixPopupPosition results start =
     fold (\<lambda>suggestion pos. case overrideStart suggestion of None \<Rightarrow> pos | Some p \<Rightarrow> p)
       results start"

definition beyondBlockingIndex :: "nat option \<Rightarrow> nat \<Rightarrow> bool" where
  \<comment> \<open>\<open>blockingIndex !== null && i > blockingIndex\<close>\<close>
  "beyondBlockingIndex b i = (case b of None \<Rightarrow> False | Some k \<Rightarrow> k < i)"

function fanOut ::
  "SuggestionProvider list \<Rightarrow> SuggestionContext \<Rightarrow> CompletrSettings \<Rightarrow> nat \<Rightarrow> aggregation \<Rightarrow>
   aggregate_error + aggregation" where
  "fanOut providers context settings i st =
     (if i < length providers then
        if beyondBlockingIndex (blockingIndex st) i then Inr st
        else
          (case call_getSuggestions (providers ! i) context settings of
             Throws \<Rightarrow> Inl (ProviderThrew i)
           | ReturnsPromise outcome \<Rightarrow>
               fanOut providers context settings (Suc i)
                 (st\<lparr>pendingAsync :=
                      pendingAsync st @ [(i, blocksAllOtherProviders (providers ! i), outcome)]\<rparr>)
           | Returns maybeSuggestions \<Rightarrow>
               let providerSuggestions = orEmpty maybeSuggestions;
                   st1 = st\<lparr>providerResults := (providerResults st)[i := Some providerSuggestions]\<rparr>
               in if providerSuggestions \<noteq> [] \<and> blocksAllOtherProviders (providers ! i)
                  then Inr (st1\<lparr>contextStart := fixPopupPosition providerSuggestions (contextStart st1),
                                 blockingIndex := Some i\<rparr>)
                  else fanOut providers context settings (Suc i) st1)
      else Inr st)"
  by pat_completeness auto
termination
  by (relation "measure (\<lambda>(providers, context, settings, i, st). length providers - i)") auto

declare fanOut.simps [simp del]

definition settledResults :: "promise_outcome \<Rightarrow> Suggestion list" where
  \<comment> \<open>\<open>.then((results) => results ?? []).catch((error) => { console.warn(...); return [] })\<close>\<close>
  "settledResults outcome = (case outcome of Resolves r \<Rightarrow> orEmpty r | Rejects \<Rightarrow> [])"

definition settleTask :: "async_task \<Rightarrow> aggregation \<Rightarrow> aggregation" where
  \<comment> \<open>the last \<open>.then\<close> of a task, run when the provider's promise has settled\<close>
  "settleTask task st =
     (case task of (i, blocks, outcome) \<Rightarrow>
        let results = settledResults outcome;
            st1 = st\<lparr>providerResults := (providerResults st)[i := Some results]\<rparr>
        in if results \<noteq> [] \<and> blocks
           then st1\<lparr>blockingIndex :=
                       Some (case blockingIndex st1 of None \<Rightarrow> i | Some b \<Rightarrow> min b i),
                     contextStart := fixPopupPosition results (contextStart st1)\<rparr>
           else st1)"

definition awaitAllSettled :: "async_task list \<Rightarrow> aggregation \<Rightarrow> aggregation" where
  \<comment> \<open>\<open>await Promise.allSettled(pendingAsync)\<close>, the tasks given in the order in which their
      promises settle\<close>
  "awaitAllSettled settled st = fold settleTask settled st"

fun addSuggestions ::
  "(Suggestion \<Rightarrow> bool) \<Rightarrow> Suggestion list \<Rightarrow> jsstring list \<times> Suggestion list \<Rightarrow>
   jsstring list \<times> Suggestion list" where
  \<comment> \<open>the inner loop of the merge, on the pair of \<open>seen\<close> and \<open>suggestions\<close>\<close>
  "addSuggestions blacklisted [] acc = acc"
| "addSuggestions blacklisted (suggestion # rest) (seen, suggestions) =
     (if displayName suggestion \<in> set seen then addSuggestions blacklisted rest (seen, suggestions)
      else if blacklisted suggestion then addSuggestions blacklisted rest (seen, suggestions)
      else addSuggestions blacklisted rest
             (seen @ [displayName suggestion], suggestions @ [suggestion]))"

fun mergeResults ::
  "(Suggestion \<Rightarrow> bool) \<Rightarrow> Suggestion list option list \<Rightarrow> jsstring list \<times> Suggestion list \<Rightarrow>
   jsstring list \<times> Suggestion list" where
  \<comment> \<open>the outer loop of the merge, over the slots up to \<open>lastIndex\<close>\<close>
  "mergeResults blacklisted [] acc = acc"
| "mergeResults blacklisted (slot # slots) acc =
     (case slot of
        None \<Rightarrow> mergeResults blacklisted slots acc
      | Some providerSuggestions \<Rightarrow>
          if providerSuggestions = [] then mergeResults blacklisted slots acc
          else mergeResults blacklisted slots (addSuggestions blacklisted providerSuggestions acc))"

definition mergeUpTo ::
  "(Suggestion \<Rightarrow> bool) \<Rightarrow> nat \<Rightarrow> Suggestion list option list \<Rightarrow> Suggestion list option" where
  \<comment> \<open>\<open>for (let i = 0; i <= lastIndex && i < providerResults.length; i++)\<close>, and the final
      \<open>suggestions.length === 0 ? null : suggestions\<close>\<close>
  "mergeUpTo blacklisted lastIndex slots =
     (let suggestions = snd (mergeResults blacklisted (take (Suc lastIndex) slots) ([], []))
      in if suggestions = [] then None else Some suggestions)"

text \<open>
  The popup: \<open>PROVIDERS\<close> (a parameter: four of the six providers are not among the
  sources), \<open>SuggestionBlacklist.has\<close> (blacklist.ts is not among the sources), and the
  fields \<open>separatorChar\<close>, \<open>triggerSource\<close>, \<open>settings\<close> and \<open>context.start\<close>.
\<close>

record SuggestionPopup =
  PROVIDERS :: "SuggestionProvider list"
  SuggestionBlacklist_has :: "Suggestion \<Rightarrow> bool"
  popup_separatorChar :: "jsstring option"
  popup_triggerSource :: SuggestionTriggerSource
  popup_settings :: CompletrSettings
  popup_contextStart :: EditorPosition

record EditorSuggestContext =
  context_query :: jsstring
  context_docBeforeCursor :: jsstring

definition providerContext :: "SuggestionPopup \<Rightarrow> EditorSuggestContext \<Rightarrow> SuggestionContext" where
  \<comment> \<open>\<open>{...context, separatorChar: this.separatorChar, triggerSource: this.triggerSource}\<close>\<close>
  "providerContext popup context =
     \<lparr>query = context_query context, separatorChar = popup_separatorChar popup,
      triggerSource = popup_triggerSource popup,
      docBeforeCursor = context_docBeforeCursor context\<rparr>"

definition lastIndex :: "nat option \<Rightarrow> nat \<Rightarrow> int" where
  \<comment> \<open>\<open>blockingIndex ?? (PROVIDERS.length - 1)\<close>, which is \<open>-1\<close> for no providers\<close>
  "lastIndex b n = (case b of None \<Rightarrow> int n - 1 | Some k \<Rightarrow> int k)"

definition popup_getSuggestions ::
  "SuggestionPopup \<Rightarrow> (async_task list \<Rightarrow> async_task list) \<Rightarrow> EditorSuggestContext \<Rightarrow>
   aggregate_error + (Suggestion list option \<times> EditorPosition)" where
  \<comment> \<open>\<open>SuggestionPopup.getSuggestions\<close>; \<open>settleOrder\<close> gives the order in which the pending
      promises settle. \<open>Inl\<close> is the rejection of the returned promise; \<open>Inr\<close> carries the
      value it resolves with (\<open>None\<close> for \<open>null\<close>) and the new \<open>this.context.start\<close>.\<close>
  "popup_getSuggestions popup settleOrder context =
     (case fanOut (PROVIDERS popup) (providerContext popup context) (popup_settings popup) 0
             \<lparr>providerResults = replicate (length (PROVIDERS popup)) None, pendingAsync = [],
              blockingIndex = None, contextStart = popup_contextStart popup\<rparr> of
        Inl e \<Rightarrow> Inl e
      | Inr st \<Rightarrow>
          let st1 = (if length (pendingAsync st) > 0
                     then awaitAllSettled (settleOrder (pendingAsync st)) st else st);
              last = lastIndex (blockingIndex st1) (length (PROVIDERS popup));
              suggestions = (if last < 0 then None
                             else mergeUpTo (SuggestionBlacklist_has popup) (nat last)
                                    (providerResults st1))
          in Inr (suggestions, contextStart st1))"

subsection \<open>What a provider contributes\<close>

text \<open>
  The list that a provider's call stands for in the merge: the returned list, the list the
  promise resolves with, and the empty list for \<open>null\<close>, \<open>undefined\<close> and a rejected promise. A
  provider blocks when it is flagged \<open>blocksAllOtherProviders\<close> and contributes a suggestion.
\<close>

definition contribution ::
  "SuggestionProvider \<Rightarrow> SuggestionContext \<Rightarrow> CompletrSettings \<Rightarrow> Suggestion list" where
  "contribution provider context settings =
     (case call_getSuggestions provider context settings of
        Throws \<Rightarrow> []
      | Returns r \<Rightarrow> orEmpty r
      | ReturnsPromise outcome \<Rightarrow> settledResults outcome)"

definition blocksWith :: "SuggestionProvider \<Rightarrow> SuggestionContext \<Rightarrow> CompletrSettings \<Rightarrow> bool" where
  "blocksWith provider context settings =
     (blocksAllOtherProviders provider \<and> contribution provider context settings \<noteq> [])"

text \<open>Notions for the proofs: the blocking index that a list of settled tasks leaves, the
  synchronous blockers, and what the fan-out loop has established before index \<open>k\<close>.\<close>

definition minBlocking :: "nat option \<Rightarrow> nat list \<Rightarrow> nat option" where
  "minBlocking init js = fold (\<lambda>j acc. Some (case acc of None \<Rightarrow> j | Some b \<Rightarrow> min b j)) js init"

definition blockersOf :: "async_task list \<Rightarrow> nat list" where
  "blockersOf ts = map fst (filter (\<lambda>(j, blocks, outcome). settledResults outcome \<noteq> [] \<and> blocks) ts)"

definition isSyncBlocker ::
  "SuggestionProvider list \<Rightarrow> SuggestionContext \<Rightarrow> CompletrSettings \<Rightarrow> nat \<Rightarrow> bool" where
  "isSyncBlocker ps c s j =
     (\<exists>r. call_getSuggestions (ps ! j) c s = Returns r \<and> orEmpty r \<noteq> []
          \<and> blocksAllOtherProviders (ps ! j))"

definition fannedOut ::
  "SuggestionProvider list \<Rightarrow> SuggestionContext \<Rightarrow> CompletrSettings \<Rightarrow> nat \<Rightarrow> aggregation \<Rightarrow> bool" where
  "fannedOut ps c s k st =
     (length (providerResults st) = length ps
      \<and> (\<forall>j<k. \<forall>r. call_getSuggestions (ps ! j) c s = Returns r
             \<longrightarrow> providerResults st ! j = Some (orEmpty r))
      \<and> (\<forall>j<k. \<forall>out. call_getSuggestions (ps ! j) c s = ReturnsPromise out
             \<longrightarrow> (j, blocksAllOtherProviders (ps ! j), out) \<in> set (pendingAsync st))
      \<and> (\<forall>j<k. call_getSuggestions (ps ! j) c s \<noteq> Throws)
      \<and> (\<forall>t\<in>set (pendingAsync st). fst t < k \<and> fst (snd t) = blocksAllOtherProviders (ps ! fst t)
             \<and> call_getSuggestions (ps ! fst t) c s = ReturnsPromise (snd (snd t))))"

subsection \<open>Example providers\<close>

definition suggest :: "string \<Rightarrow> Suggestion" where
  "suggest s = fromString (str s)"

definition returning :: "bool \<Rightarrow> Suggestion list \<Rightarrow> SuggestionProvider" where
  \<comment> \<open>a synchronous provider\<close>
  "returning blocks xs =
     \<lparr>blocksAllOtherProviders = blocks, call_getSuggestions = (\<lambda>context settings. Returns (Some xs))\<rparr>"

definition resolving :: "bool \<Rightarrow> Suggestion list \<Rightarrow> SuggestionProvider" where
  \<comment> \<open>an asynchronous provider whose promise resolves\<close>
  "resolving blocks xs =
     \<lparr>blocksAllOtherProviders = blocks,
      call_getSuggestions = (\<lambda>context settings. ReturnsPromise (Resolves (Some xs)))\<rparr>"

definition rejecting :: SuggestionProvider where
  \<comment> \<open>an asynchronous provider whose promise rejects\<close>
  "rejecting = \<lparr>blocksAllOtherProviders = False,
                call_getSuggestions = (\<lambda>context settings. ReturnsPromise Rejects)\<rparr>"

definition throwing :: SuggestionProvider where
  \<comment> \<open>a synchronous provider whose \<open>getSuggestions\<close> throws\<close>
  "throwing = \<lparr>blocksAllOtherProviders = False,
               call_getSuggestions = (\<lambda>context settings. Throws)\<rparr>"

definition popupWith :: "SuggestionProvider list \<Rightarrow> SuggestionPopup" where
  "popupWith providers =
     \<lparr>PROVIDERS = providers, SuggestionBlacklist_has = (\<lambda>suggestion. False),
      popup_separatorChar = Some (str '' ''), popup_triggerSource = auto,
      popup_settings = DEFAULT_SETTINGS, popup_contextStart = (0, 1)\<rparr>"

definition typed :: "string \<Rightarrow> EditorSuggestContext" where
  "typed s = \<lparr>context_query = str s, context_docBeforeCursor = str '' '' @ str s\<rparr>"

definition demo_providers :: "SuggestionProvider list" where
  "demo_providers = [returning False [suggest ''alpha''],
                     resolving True [suggest ''beta''],
                     resolving True [suggest ''gamma''],
                     returning False [suggest ''delta'']]"


section \<open>The LLM provider\<close>

text \<open>
  The class \<open>LlmSuggestionProvider\<close> as its latest revision among the sources has it, the one
  with the pending slot and the cache of prepared requests. The file llm\_provider.ts is an
  earlier revision of the same class; its \<open>fetchSuggestions\<close> handles the response in the
  same way, and its cache key is dealt with below.
\<close>

subsection \<open>Strings and numbers of the platform\<close>

definition isWhiteSpace :: "16 word \<Rightarrow> bool" where
  \<comment> \<open>the white space and line terminators that \<open>trim\<close> removes and \<open>\s\<close> matches\<close>
  "isWhiteSpace c =
     (c \<in> set [0x9, 0xA, 0xB, 0xC, 0xD, 0x20, 0xA0, 0x1680, 0x2028, 0x2029, 0x202F, 0x205F,
                0x3000, 0xFEFF]
      \<or> (0x2000 \<le> c \<and> c \<le> 0x200A))"

definition trim :: "jsstring \<Rightarrow> jsstring" where
  "trim s = rev (dropWhile isWhiteSpace (rev (dropWhile isWhiteSpace s)))"

fun string_includes :: "jsstring \<Rightarrow> jsstring \<Rightarrow> bool" where
  \<comment> \<open>\<open>s.includes(t)\<close>\<close>
  "string_includes [] t = (t = [])"
| "string_includes (c # cs) t = (if startsWith (c # cs) t then True else string_includes cs t)"

fun join :: "jsstring \<Rightarrow> jsstring list \<Rightarrow> jsstring" where
  \<comment> \<open>\<open>components.join(separator)\<close>\<close>
  "join sep [] = []"
| "join sep [x] = x"
| "join sep (x # y # ys) = x @ sep @ join sep (y # ys)"

definition digit :: "nat \<Rightarrow> 16 word" where
  "digit d = 0x30 + of_nat d"

function decimal :: "nat \<Rightarrow> jsstring" where
  \<comment> \<open>the decimal digits of a natural number\<close>
  "decimal n = (if n < 10 then [digit n] else decimal (n div 10) @ [digit (n mod 10)])"
  by pat_completeness auto
termination
  by (relation "measure (\<lambda>n. n)") auto

declare decimal.simps [simp del]

definition toFixed3 :: "rat \<Rightarrow> jsstring" where
  \<comment> \<open>\<open>x.toFixed(3)\<close> for a finite \<open>x\<close> below \<open>10^21\<close> in absolute value: the integer \<open>n\<close>
      with \<open>n / 1000\<close> nearest to \<open>|x|\<close> (the larger one of two), printed with at least one
      digit before the point and three after it, after a minus sign when \<open>x < 0\<close>\<close>
  "toFixed3 x =
     (let n = nat \<lfloor>\<bar>x\<bar> * 1000 + 1 / 2\<rfloor>;
          m = decimal n;
          m' = replicate (4 - length m) (digit 0) @ m
      in (if x < 0 then str ''-'' else []) @ take (length m' - 3) m' @ str ''.''
           @ drop (length m' - 3) m')"

subsection \<open>Settings of the provider\<close>

record LLMProviderSettings =
  enabled :: bool
  endpoint :: jsstring
  apiKey :: "jsstring option"
  model :: "jsstring option"
  temperature :: "jsnumber option"
  timeout :: "jsnumber option"

definition isFinite :: "jsnumber \<Rightarrow> bool" where
  "isFinite x = (case x of Num r \<Rightarrow> True | _ \<Rightarrow> False)"

definition isPositive :: "jsnumber \<Rightarrow> bool" where
  \<comment> \<open>\<open>x > 0\<close>\<close>
  "isPositive x = (case x of Num r \<Rightarrow> 0 < r | PosInfinity \<Rightarrow> True | _ \<Rightarrow> False)"

definition getLLMProviderSettings :: "CompletrSettings \<Rightarrow> LLMProviderSettings" where
  "getLLMProviderSettings settings =
     \<lparr>enabled = llmProviderEnabled settings,
      endpoint = trim (llmApiUrl settings),
      apiKey = (if trim (llmApiKey settings) \<noteq> [] then Some (llmApiKey settings) else None),
      model = (if trim (llmModel settings) \<noteq> [] then Some (trim (llmModel settings)) else None),
      temperature = (if isFinite (llmTemperature settings) then Some (llmTemperature settings)
                     else None),
      timeout = (if isFinite (llmRequestTimeout settings) \<and> isPositive (llmRequestTimeout settings)
                 then Some (llmRequestTimeout settings) else None)\<rparr>"

definition llm_isEnabled :: "LLMProviderSettings \<Rightarrow> bool" where
  \<comment> \<open>\<open>LlmSuggestionProvider.isEnabled\<close>\<close>
  "llm_isEnabled settings = (enabled settings \<and> trim (endpoint settings) \<noteq> [])"

subsection \<open>The request key\<close>

definition CACHE_SEPARATOR :: jsstring where
  "CACHE_SEPARATOR = [0x241E]"

definition CHAT_COMPLETION_CONTEXT_LIMIT :: nat where
  "CHAT_COMPLETION_CONTEXT_LIMIT = 6000"

definition DEFAULT_CHAT_MODEL :: jsstring where
  "DEFAULT_CHAT_MODEL = str ''gpt-3.5-turbo''"

definition DEFAULT_CHAT_TEMPERATURE :: rat where
  "DEFAULT_CHAT_TEMPERATURE = double_0_7"

definition readLimitedContext :: "SuggestionContext \<Rightarrow> nat \<Rightarrow> jsstring" where
  \<comment> \<open>the range of the document from \<open>max(0, endIndex - limit)\<close> to the cursor\<close>
  "readLimitedContext context limit =
     drop (length (docBeforeCursor context) - limit) (docBeforeCursor context)"

definition clipContext :: "jsstring \<Rightarrow> nat \<Rightarrow> jsstring" where
  "clipContext priorText limit =
     (if length priorText \<le> limit then priorText
      else drop (length priorText - limit) priorText)"

definition isDigit :: "16 word \<Rightarrow> bool" where
  \<comment> \<open>\<open>\d\<close>\<close>
  "isDigit c = (0x30 \<le> c \<and> c \<le> 0x39)"

definition isWordChar :: "16 word \<Rightarrow> bool" where
  \<comment> \<open>\<open>\w\<close>\<close>
  "isWordChar c = (isDigit c \<or> (0x41 \<le> c \<and> c \<le> 0x5A) \<or> (0x61 \<le> c \<and> c \<le> 0x7A) \<or> c = 0x5F)"

definition chatCompletionsAt :: "jsstring \<Rightarrow> bool" where
  \<comment> \<open>\<open>/\/v\d+\/chat\/completions\b/\<close> matched at the start of the string\<close>
  "chatCompletionsAt s =
     (if startsWith s (str ''/v'') then
        let digits = takeWhile isDigit (drop 2 s);
            rest = dropWhile isDigit (drop 2 s);
            after = drop (length (str ''/chat/completions'')) rest
        in digits \<noteq> [] \<and> startsWith rest (str ''/chat/completions'')
           \<and> (case after of [] \<Rightarrow> True | c # cs \<Rightarrow> \<not> isWordChar c)
      else False)"

fun chatCompletionsPath :: "jsstring \<Rightarrow> bool" where
  \<comment> \<open>\<open>/\/v\d+\/chat\/completions\b/.test(s)\<close>\<close>
  "chatCompletionsPath [] = False"
| "chatCompletionsPath (c # cs) = (if chatCompletionsAt (c # cs) then True else chatCompletionsPath cs)"

text \<open>
  The functions of the platform that stay parameters: \<open>String.prototype.toLowerCase\<close>,
  \<open>JSON.parse\<close> (\<open>None\<close> when it throws) and \<open>JSON.stringify\<close>.
\<close>

datatype json =
  JNull | JBool bool | JNumber rat | JString jsstring | JArray "json list"
  | JObject "(jsstring \<times> json) list"

record js_platform =
  toLowerCase :: "jsstring \<Rightarrow> jsstring"
  JSON_parse :: "jsstring \<Rightarrow> json option"
  JSON_stringify :: "json \<Rightarrow> jsstring"

definition isOpenAIEndpoint :: "js_platform \<Rightarrow> jsstring \<Rightarrow> bool" where
  "isOpenAIEndpoint platform endpoint' =
     (if endpoint' = [] then False
      else let normalised = toLowerCase platform endpoint'
           in if string_includes normalised (str ''api.openai.com'') then True
              else chatCompletionsPath normalised)"

definition resolveModel :: "js_platform \<Rightarrow> LLMProviderSettings \<Rightarrow> jsstring option" where
  "resolveModel platform settings =
     (case model settings of
        Some m \<Rightarrow>
          if trim m \<noteq> [] then Some (trim m)
          else if isOpenAIEndpoint platform (endpoint settings) then Some DEFAULT_CHAT_MODEL else None
      | None \<Rightarrow>
          if isOpenAIEndpoint platform (endpoint settings) then Some DEFAULT_CHAT_MODEL else None)"

definition resolveTemperature :: "jsnumber option \<Rightarrow> rat" where
  "resolveTemperature v =
     (case v of
        None \<Rightarrow> DEFAULT_CHAT_TEMPERATURE
      | Some NaN \<Rightarrow> DEFAULT_CHAT_TEMPERATURE
      | Some (Num x) \<Rightarrow> max 0 (min 2 x)
      | Some PosInfinity \<Rightarrow> 2
      | Some NegInfinity \<Rightarrow> 0)"

definition orEmptyString :: "jsstring option \<Rightarrow> jsstring" where
  \<comment> \<open>\<open>value ?? ""\<close>\<close>
  "orEmptyString v = (case v of None \<Rightarrow> [] | Some s \<Rightarrow> s)"

definition createCacheKey :: "jsstring \<Rightarrow> jsstring option \<Rightarrow> jsstring option \<Rightarrow> rat \<Rightarrow> jsstring" where
  "createCacheKey clipped separator model' temperature' =
     join CACHE_SEPARATOR
       [clipped, orEmptyString separator, orEmptyString model', toFixed3 temperature']"

definition requestKey :: "js_platform \<Rightarrow> SuggestionContext \<Rightarrow> LLMProviderSettings \<Rightarrow> jsstring" where
  \<comment> \<open>the \<open>cacheKey\<close> that \<open>getSuggestions\<close> computes\<close>
  "requestKey platform context settings =
     createCacheKey
       (clipContext (readLimitedContext context CHAT_COMPLETION_CONTEXT_LIMIT)
          CHAT_COMPLETION_CONTEXT_LIMIT)
       (separatorChar context) (resolveModel platform settings)
       (resolveTemperature (temperature settings))"

definition roundedTemperature :: "rat \<Rightarrow> int" where
  \<comment> \<open>the temperature in thousandths, rounded half up: what \<open>toFixed(3)\<close> prints\<close>
  "roundedTemperature t = \<lfloor>t * 1000 + 1 / 2\<rfloor>"

definition digitsValue :: "jsstring \<Rightarrow> nat" where
  \<comment> \<open>the number that a string of decimal digits denotes\<close>
  "digitsValue s = fold (\<lambda>c acc. 10 * acc + (unat c - 48)) s 0"

definition createCacheKey_earlier :: "jsstring \<Rightarrow> jsstring option \<Rightarrow> jsstring" where
  \<comment> \<open>\<open>createCacheKey\<close> of the earlier revision llm\_provider.ts:
      \<open>`${priorText}${CACHE_SEPARATOR}${separator ?? ""}`\<close>\<close>
  "createCacheKey_earlier priorText separator = priorText @ CACHE_SEPARATOR @ orEmptyString separator"

subsection \<open>Prepared requests\<close>

datatype PreparedRequestSource = generated | cache

record PreparedRequest =
  body :: jsstring
  clippedContext :: jsstring
  request_model :: "jsstring option"
  request_temperature :: rat
  source :: PreparedRequestSource

record CachedSuggestions =
  suggestions :: "Suggestion list"
  cached_request :: PreparedRequest

record PendingRequest =
  args_settings :: LLMProviderSettings
  args_request :: PreparedRequest
  args_separator :: "jsstring option"
  args_query :: jsstring
  args_triggerSource :: SuggestionTriggerSource

definition CHAT_COMPLETION_PROMPT :: jsstring where
  "CHAT_COMPLETION_PROMPT = str (''You are an autocomplete assistant for the Obsidian note-taking app. ''
     @ ''Complete what word the user is typing. ''
     @ ''Return ONLY a JSON array of 5 WORDS with no commentary. ''
     @ ''If the last word a user has is a partial word, ''
     @ ''suggest what words the user is trying to type.'')"

definition prepareChatCompletionRequest ::
  "js_platform \<Rightarrow> jsstring \<Rightarrow> jsstring option \<Rightarrow> rat \<Rightarrow> PreparedRequest" where
  "prepareChatCompletionRequest platform clipped model' temperature' =
     (let payload =
            [(str ''temperature'', JNumber temperature'),
             (str ''messages'', JArray
                [JObject [(str ''role'', JString (str ''system'')),
                          (str ''content'', JString CHAT_COMPLETION_PROMPT)],
                 JObject [(str ''role'', JString (str ''user'')),
                          (str ''content'', JString clipped)]])];
          payload' = (case model' of
                        None \<Rightarrow> payload
                      | Some m \<Rightarrow> if m = [] then payload else payload @ [(str ''model'', JString m)])
      in \<lparr>body = JSON_stringify platform (JObject payload'), clippedContext = clipped,
          request_model = model', request_temperature = temperature', source = generated\<rparr>)"

definition clonePreparedRequest :: "PreparedRequest \<Rightarrow> PreparedRequestSource \<Rightarrow> PreparedRequest" where
  "clonePreparedRequest request source' =
     \<lparr>body = body request, clippedContext = clippedContext request,
      request_model = request_model request, request_temperature = request_temperature request,
      source = source'\<rparr>"

fun Map_set :: "('k \<times> 'v) list \<Rightarrow> 'k \<Rightarrow> 'v \<Rightarrow> ('k \<times> 'v) list" where
  \<comment> \<open>\<open>map.set(key, value)\<close>: a key that is present keeps its place in the insertion order\<close>
  "Map_set [] k v = [(k, v)]"
| "Map_set ((k', v') # m) k v = (if k' = k then (k, v) # m else (k', v') # Map_set m k v)"

definition storePreparedRequest ::
  "jsstring \<Rightarrow> PreparedRequest \<Rightarrow> (jsstring \<times> PreparedRequest) list \<Rightarrow>
   (jsstring \<times> PreparedRequest) list" where
  \<comment> \<open>on \<open>this.requestCache\<close>; the loop deletes the oldest keys while more than 20 remain\<close>
  "storePreparedRequest key request requestCache' =
     (let m = Map_set requestCache' key (clonePreparedRequest request generated)
      in drop (length m - 20) m)"

subsection \<open>The response\<close>

text \<open>
  What reading a field of the response gives: the getter throws, the field is \<open>undefined\<close> or
  \<open>null\<close>, it holds a value, or it holds a promise, which resolves (with a value, or with
  \<open>undefined\<close> or \<open>null\<close>) or rejects. \<open>requestUrl\<close> is called with \<open>throw: false\<close>; its promise
  rejects when the request fails (no connection, timeout), and resolves with the response
  otherwise, whatever the status.
\<close>

datatype 'a field = Throwing | Absent | Present 'a | Resolving "'a option" | Rejecting

record RequestUrlResponse =
  status :: int
  response_json :: "json field"
  response_text :: "json field"

datatype requestUrl_outcome = RequestRejects | RequestResolves RequestUrlResponse

datatype fetch_error = Thrown

definition resolvePossiblePromise :: "'a field \<Rightarrow> fetch_error + 'a option" where
  \<comment> \<open>with the read of the field that is its argument; a rejection is caught and gives
      \<open>undefined\<close>\<close>
  "resolvePossiblePromise value =
     (case value of
        Throwing \<Rightarrow> Inl Thrown
      | Absent \<Rightarrow> Inr None
      | Present v \<Rightarrow> Inr (Some v)
      | Resolving v \<Rightarrow> Inr v
      | Rejecting \<Rightarrow> Inr None)"

definition safeParseJson :: "js_platform \<Rightarrow> jsstring \<Rightarrow> json" where
  "safeParseJson platform text' =
     (if text' = [] then JNull
      else case JSON_parse platform text' of None \<Rightarrow> JNull | Some v \<Rightarrow> v)"

definition payloadFromText :: "js_platform \<Rightarrow> RequestUrlResponse \<Rightarrow> fetch_error + json" where
  \<comment> \<open>the second half of \<open>resolvePayload\<close>\<close>
  "payloadFromText platform response =
     (case resolvePossiblePromise (response_text response) of
        Inl e \<Rightarrow> Inl e
      | Inr resolvedText \<Rightarrow>
          (case resolvedText of
             Some (JString t) \<Rightarrow> Inr (safeParseJson platform t)
           | _ \<Rightarrow> Inr JNull))"

definition resolvePayload :: "js_platform \<Rightarrow> RequestUrlResponse \<Rightarrow> fetch_error + json" where
  "resolvePayload platform response =
     (case resolvePossiblePromise (response_json response) of
        Inl e \<Rightarrow> Inl e
      | Inr resolvedJson \<Rightarrow>
          (case resolvedJson of
             None \<Rightarrow> payloadFromText platform response
           | Some JNull \<Rightarrow> payloadFromText platform response
           | Some (JString s) \<Rightarrow>
               let parsed = safeParseJson platform s
               in if parsed \<noteq> JNull then Inr parsed else payloadFromText platform response
           | Some v \<Rightarrow> Inr v))"

fun strings :: "json list \<Rightarrow> jsstring list" where
  \<comment> \<open>\<open>.filter((entry) => typeof entry === "string")\<close>\<close>
  "strings [] = []"
| "strings (JString s # xs) = s # strings xs"
| "strings (x # xs) = strings xs"

definition property :: "json \<Rightarrow> string \<Rightarrow> json option" where
  \<comment> \<open>a named property of a value that passed \<open>typeof value === "object"\<close>; an array has none of
      the names read here\<close>
  "property v name = (case v of JObject kvs \<Rightarrow> map_of kvs (str name) | _ \<Rightarrow> None)"

definition arrayProperty :: "json \<Rightarrow> string \<Rightarrow> json list option" where
  \<comment> \<open>the property when \<open>Array.isArray\<close> holds of it\<close>
  "arrayProperty v name = (case property v name of Some (JArray xs) \<Rightarrow> Some xs | _ \<Rightarrow> None)"

definition extractWords :: "json \<Rightarrow> jsstring list" where
  "extractWords payload =
     (case payload of
        JArray xs \<Rightarrow> strings xs
      | JObject kvs \<Rightarrow>
          (case arrayProperty payload ''suggestions'' of Some xs \<Rightarrow> strings xs | None \<Rightarrow>
           case arrayProperty payload ''words'' of Some xs \<Rightarrow> strings xs | None \<Rightarrow>
           case arrayProperty payload ''completions'' of Some xs \<Rightarrow> strings xs | None \<Rightarrow>
           case arrayProperty payload ''data'' of Some xs \<Rightarrow> strings xs | None \<Rightarrow> [])
      | _ \<Rightarrow> [])"

definition fence :: jsstring where
  "fence = str ''```''"

fun splitAtFence :: "jsstring \<Rightarrow> (jsstring \<times> jsstring) option" where
  \<comment> \<open>the text before and after the first \<open>```\<close>\<close>
  "splitAtFence [] = None"
| "splitAtFence (c # cs) =
     (if startsWith (c # cs) fence then Some ([], drop 3 (c # cs))
      else case splitAtFence cs of None \<Rightarrow> None | Some (before, after) \<Rightarrow> Some (c # before, after))"

definition asciiLower :: "16 word \<Rightarrow> 16 word" where
  "asciiLower c = (if 0x41 \<le> c \<and> c \<le> 0x5A then c + 0x20 else c)"

definition codeBlockMatch :: "jsstring \<Rightarrow> jsstring option" where
  \<comment> \<open>the group of the first match of \<open>/```(?:json)?\s*([\s\S]*?)```/i\<close>: after the first fence,
      an optional \<open>json\<close> in either case and white space, the text up to the next fence\<close>
  "codeBlockMatch s =
     (case splitAtFence s of
        None \<Rightarrow> None
      | Some (before, opened) \<Rightarrow>
          let afterJson = (if map asciiLower (take 4 opened) = str ''json'' then drop 4 opened
                           else opened);
              afterSpace = dropWhile isWhiteSpace afterJson
          in (case splitAtFence afterSpace of
                None \<Rightarrow> None
              | Some (captured, rest) \<Rightarrow> Some captured))"

function splitLines :: "jsstring \<Rightarrow> jsstring \<Rightarrow> jsstring list" where
  \<comment> \<open>\<open>content.split(/\r?\n+/)\<close>, the first argument the line read so far\<close>
  "splitLines line [] = [line]"
| "splitLines line (c # cs) =
     (if c = 0xA then line # splitLines [] (dropWhile (\<lambda>d. d = 0xA) cs)
      else if c = 0xD \<and> take 1 cs = [0xA] then line # splitLines [] (dropWhile (\<lambda>d. d = 0xA) cs)
      else splitLines (line @ [c]) cs)"
  by pat_completeness auto
termination
  by (relation "measure (\<lambda>(line, s). length s)")
     (auto simp: length_dropWhile_le less_Suc_eq_le)

declare splitLines.simps [simp del]

definition stripListPrefix :: "jsstring \<Rightarrow> jsstring" where
  \<comment> \<open>\<open>line.replace(/^[\-\d\.]*(?:\)|\.|:)?\s*/, "")\<close>\<close>
  "stripListPrefix line =
     (let rest = dropWhile (\<lambda>c. c = 0x2D \<or> isDigit c \<or> c = 0x2E) line;
          rest' = (case rest of
                     [] \<Rightarrow> []
                   | c # cs \<Rightarrow> if c = 0x29 \<or> c = 0x2E \<or> c = 0x3A then cs else c # cs)
      in dropWhile isWhiteSpace rest')"

definition parseOpenAIContent :: "js_platform \<Rightarrow> jsstring \<Rightarrow> jsstring list" where
  "parseOpenAIContent platform raw =
     (let trimmed = trim raw
      in if trimmed = [] then []
         else
           let content = (case codeBlockMatch trimmed of
                            Some captured \<Rightarrow> trim captured
                          | None \<Rightarrow> trimmed)
           in (case JSON_parse platform content of
                 Some (JArray parsed) \<Rightarrow> strings parsed
               | _ \<Rightarrow> filter (\<lambda>line. line \<noteq> [])
                        (map (\<lambda>line. trim (stripListPrefix line)) (splitLines [] content))))"

definition choiceWords :: "js_platform \<Rightarrow> json \<Rightarrow> jsstring list" where
  \<comment> \<open>the body of the loop over \<open>choices\<close>\<close>
  "choiceWords platform choice =
     (case choice of
        JObject kvs \<Rightarrow>
          (case (case property choice ''message'' of
                   Some (JObject message) \<Rightarrow> property (JObject message) ''content''
                 | _ \<Rightarrow> None) of
             Some (JString content) \<Rightarrow> parseOpenAIContent platform content
           | _ \<Rightarrow>
               (case property choice ''text'' of
                  Some (JString text') \<Rightarrow> parseOpenAIContent platform text'
                | _ \<Rightarrow> []))
      | _ \<Rightarrow> [])"

definition extractOpenAIWords :: "js_platform \<Rightarrow> json \<Rightarrow> jsstring list" where
  "extractOpenAIWords platform payload =
     (case payload of
        JObject kvs \<Rightarrow>
          (case arrayProperty payload ''choices'' of
             None \<Rightarrow> []
           | Some choices \<Rightarrow> concat (map (choiceWords platform) choices))
      | _ \<Rightarrow> [])"

definition fetchSuggestions_try ::
  "js_platform \<Rightarrow> requestUrl_outcome \<Rightarrow> fetch_error + Suggestion list" where
  \<comment> \<open>the \<open>try\<close> block of \<open>fetchSuggestions\<close> from \<open>await requestUrl(...)\<close> on\<close>
  "fetchSuggestions_try platform outcome =
     (case outcome of
        RequestRejects \<Rightarrow> Inl Thrown
      | RequestResolves response \<Rightarrow>
          (case resolvePayload platform response of
             Inl e \<Rightarrow> Inl e
           | Inr payload \<Rightarrow>
               if status response < 200 \<or> status response \<ge> 300 then Inr []
               else
                 let words = extractWords payload;
                     words' = (if words = [] then extractOpenAIWords platform payload else words)
                 in Inr (map fromString words')))"

definition fetchSuggestions ::
  "js_platform \<Rightarrow> requestUrl_outcome \<Rightarrow> fetch_error + Suggestion list" where
  \<comment> \<open>what the promise of \<open>fetchSuggestions\<close> settles with: \<open>Inr\<close> a value it resolves with,
      \<open>Inl\<close> an error it rejects with. The \<open>catch\<close> returns the empty list.\<close>
  "fetchSuggestions platform outcome =
     (case fetchSuggestions_try platform outcome of
        Inl e \<Rightarrow> Inr []
      | Inr suggestions' \<Rightarrow> Inr suggestions')"

subsection \<open>The provider and its requests\<close>

record RequestUrlParam =
  url :: jsstring
  http_method :: jsstring
  request_body :: jsstring
  headers :: "(jsstring \<times> jsstring) list"
  request_timeout :: "jsnumber option"
  throw :: bool

definition requestUrlParam :: "PendingRequest \<Rightarrow> RequestUrlParam" where
  \<comment> \<open>the argument of \<open>requestUrl\<close> in \<open>fetchSuggestions\<close>\<close>
  "requestUrlParam args =
     \<lparr>url = endpoint (args_settings args), http_method = str ''POST'',
      request_body = body (args_request args),
      headers = (str ''Content-Type'', str ''application/json'')
                # (case apiKey (args_settings args) of
                     None \<Rightarrow> []
                   | Some k \<Rightarrow> if k = [] then [] else [(str ''Authorization'', str ''Bearer '' @ k)]),
      request_timeout = timeout (args_settings args), throw = False\<rparr>"

text \<open>
  The fields of the class, and two lists that record what happened: \<open>network\<close> holds every
  call of \<open>requestUrl\<close> in the order of the calls, each with the key and the arguments of the
  \<open>executeRequest\<close> that awaits it, and \<open>settled\<close> holds what the promise of each
  \<open>fetchSuggestions\<close> settled with. The promise of the \<open>n\<close>-th call of \<open>fetchSuggestions\<close> is
  the number \<open>n\<close>.
\<close>

record LlmSuggestionProvider =
  cacheKey :: "jsstring option"
  cacheValue :: "CachedSuggestions option"
  inflightKey :: "jsstring option"
  inflightPromise :: "nat option"
  pendingKey :: "jsstring option"
  pendingArgs :: "PendingRequest option"
  requestCache :: "(jsstring \<times> PreparedRequest) list"
  network :: "(RequestUrlParam \<times> jsstring \<times> PendingRequest) list"
  settled :: "(nat \<times> (fetch_error + Suggestion list)) list"

definition LLM :: LlmSuggestionProvider where
  \<comment> \<open>\<open>new LlmSuggestionProvider()\<close>\<close>
  "LLM = \<lparr>cacheKey = None, cacheValue = None, inflightKey = None, inflightPromise = None,
          pendingKey = None, pendingArgs = None, requestCache = [], network = [], settled = []\<rparr>"

text \<open>
  The promise that \<open>getSuggestions\<close> returns: one that is resolved with a list, or one that
  settles as the promise of a call of \<open>fetchSuggestions\<close> settles (\<open>return
  this.inflightPromise\<close>, and the \<open>return suggestions\<close> of \<open>executeRequest\<close> after its \<open>await\<close>).
\<close>

datatype reply = Resolved "Suggestion list" | Awaits nat

definition executeRequest ::
  "jsstring \<Rightarrow> PendingRequest \<Rightarrow> LlmSuggestionProvider \<Rightarrow> reply \<times> LlmSuggestionProvider" where
  \<comment> \<open>\<open>executeRequest\<close> up to its \<open>await\<close>: \<open>fetchSuggestions\<close> runs up to its own first
      \<open>await\<close>, which is the call of \<open>requestUrl\<close>\<close>
  "executeRequest key args st =
     (Awaits (length (network st)),
      st\<lparr>network := network st @ [(requestUrlParam args, key, args)],
         inflightKey := Some key, inflightPromise := Some (length (network st))\<rparr>)"

definition falsyKey :: "jsstring option \<Rightarrow> bool" where
  \<comment> \<open>\<open>!this.pendingKey\<close>: \<open>null\<close> or the empty string\<close>
  "falsyKey k = (case k of None \<Rightarrow> True | Some s \<Rightarrow> s = [])"

definition processPending :: "LlmSuggestionProvider \<Rightarrow> LlmSuggestionProvider" where
  "processPending st =
     (if inflightPromise st \<noteq> None then st
      else if falsyKey (pendingKey st) then st
      else (case (pendingKey st, pendingArgs st) of
              (Some nextKey, Some nextArgs) \<Rightarrow>
                snd (executeRequest nextKey nextArgs (st\<lparr>pendingKey := None, pendingArgs := None\<rparr>))
            | _ \<Rightarrow> st))"

definition llm_getSuggestions ::
  "js_platform \<Rightarrow> LlmSuggestionProvider \<Rightarrow> SuggestionContext \<Rightarrow> CompletrSettings \<Rightarrow>
   reply \<times> LlmSuggestionProvider" where
  \<comment> \<open>\<open>LlmSuggestionProvider.getSuggestions\<close>\<close>
  "llm_getSuggestions platform st context settings =
     (let providerSettings = getLLMProviderSettings settings
      in if \<not> llm_isEnabled providerSettings then (Resolved [], st)
         else
           let limitedContext = readLimitedContext context CHAT_COMPLETION_CONTEXT_LIMIT;
               clipped = clipContext limitedContext CHAT_COMPLETION_CONTEXT_LIMIT;
               temperature' = resolveTemperature (temperature providerSettings);
               model' = resolveModel platform providerSettings;
               key = createCacheKey clipped (separatorChar context) model' temperature';
               cachedSuggestions = (if cacheKey st = Some key then cacheValue st else None)
           in (case cachedSuggestions of
                 Some cached \<Rightarrow> (Resolved (suggestions cached), st)
               | None \<Rightarrow>
                   let request = (case map_of (requestCache st) key of
                                    Some cachedRequest \<Rightarrow> clonePreparedRequest cachedRequest cache
                                  | None \<Rightarrow>
                                      prepareChatCompletionRequest platform clipped model' temperature');
                       args = \<lparr>args_settings = providerSettings, args_request = request,
                               args_separator = separatorChar context, args_query = query context,
                               args_triggerSource = triggerSource context\<rparr>
                   in (case inflightPromise st of
                         Some promise \<Rightarrow>
                           if inflightKey st = Some key then (Awaits promise, st)
                           else (Resolved [], st\<lparr>pendingKey := Some key, pendingArgs := Some args\<rparr>)
                       | None \<Rightarrow> executeRequest key args st)))"

definition executeRequest_finally :: "jsstring \<Rightarrow> LlmSuggestionProvider \<Rightarrow> LlmSuggestionProvider" where
  \<comment> \<open>the \<open>finally\<close> block of \<open>executeRequest\<close>\<close>
  "executeRequest_finally key st =
     (if inflightKey st = Some key
      then processPending (st\<lparr>inflightKey := None, inflightPromise := None\<rparr>)
      else st)"

definition requestSettled ::
  "js_platform \<Rightarrow> nat \<Rightarrow> requestUrl_outcome \<Rightarrow> LlmSuggestionProvider \<Rightarrow> LlmSuggestionProvider" where
  \<comment> \<open>the \<open>n\<close>-th call of \<open>requestUrl\<close> comes back: \<open>fetchSuggestions\<close> runs to its end and the
      \<open>executeRequest\<close> that awaits it runs from its \<open>await\<close> through its \<open>finally\<close>\<close>
  "requestSettled platform n outcome st =
     (if n < length (network st) \<and> n \<notin> fst ` set (settled st) then
        (case network st ! n of (param, key, args) \<Rightarrow>
           let result = fetchSuggestions platform outcome;
               st1 = st\<lparr>settled := settled st @ [(n, result)]\<rparr>
           in (case result of
                 Inl e \<Rightarrow> executeRequest_finally key st1
               | Inr suggestions' \<Rightarrow>
                   let st2 = (if inflightKey st1 = Some key then
                                let cachedRequest = clonePreparedRequest (args_request args)
                                                      (source (args_request args))
                                in st1\<lparr>cacheKey := Some key,
                                       cacheValue := Some \<lparr>suggestions = suggestions',
                                                           cached_request = cachedRequest\<rparr>,
                                       requestCache :=
                                         storePreparedRequest key cachedRequest (requestCache st1)\<rparr>
                              else st1)
                   in executeRequest_finally key st2))
      else st)"

definition delivered :: "LlmSuggestionProvider \<Rightarrow> reply \<Rightarrow> (fetch_error + Suggestion list) option" where
  \<comment> \<open>what the caller that holds the reply has received so far: \<open>None\<close> while its promise is
      unsettled\<close>
  "delivered st r = (case r of Resolved xs \<Rightarrow> Some (Inr xs) | Awaits n \<Rightarrow> map_of (settled st) n)"

definition sentKeys :: "LlmSuggestionProvider \<Rightarrow> jsstring list" where
  \<comment> \<open>the keys of the network calls made so far, in order\<close>
  "sentKeys st = map (\<lambda>(param, key, args). key) (network st)"

subsection \<open>A platform and contexts for the scenarios\<close>

definition ascii_platform :: js_platform where
  \<comment> \<open>lower-casing of ASCII text, a \<open>JSON.parse\<close> that knows no text and a \<open>JSON.stringify\<close>
      that prints nothing: the scenarios below read neither\<close>
  "ascii_platform = \<lparr>toLowerCase = map asciiLower, JSON_parse = (\<lambda>text'. None),
                     JSON_stringify = (\<lambda>value. [])\<rparr>"

definition cursorAfter :: "string \<Rightarrow> SuggestionContext" where
  \<comment> \<open>the cursor at the end of a document that holds the given text, a word after a space\<close>
  "cursorAfter s = \<lparr>query = str s, separatorChar = Some (str '' ''), triggerSource = auto,
                     docBeforeCursor = str ''note '' @ str s\<rparr>"

definition http500 :: requestUrl_outcome where
  "http500 = RequestResolves \<lparr>status = 500, response_json = Throwing,
                               response_text = Present (JString (str ''Internal Server Error''))\<rparr>"

definition http200 :: "string list \<Rightarrow> requestUrl_outcome" where
  "http200 ws = RequestResolves \<lparr>status = 200,
                                 response_json = Present (JArray (map (\<lambda>w. JString (str w)) ws)),
                                 response_text = Absent\<rparr>"

text \<open>Three calls in quick succession on a new provider, the user typing \<open>a\<close>, \<open>ab\<close>, \<open>abc\<close>.\<close>

definition typedA :: "reply \<times> LlmSuggestionProvider" where
  "typedA = llm_getSuggestions ascii_platform LLM (cursorAfter ''a'') DEFAULT_SETTINGS"

definition typedB :: "reply \<times> LlmSuggestionProvider" where
  "typedB = llm_getSuggestions ascii_platform (snd typedA) (cursorAfter ''ab'') DEFAULT_SETTINGS"

definition typedC :: "reply \<times> LlmSuggestionProvider" where
  "typedC = llm_getSuggestions ascii_platform (snd typedB) (cursorAfter ''abc'') DEFAULT_SETTINGS"

definition keyOf :: "string \<Rightarrow> jsstring" where
  "keyOf s = requestKey ascii_platform (cursorAfter s) (getLLMProviderSettings DEFAULT_SETTINGS)"

subsection \<open>The revision in llm\_provider.ts\<close>

text \<open>
  The class of llm\_provider.ts has no pending slot and no cache of prepared requests: a
  call whose key is neither the cached one nor the one in flight sends its request at once
  and takes over \<open>inflightKey\<close> and \<open>inflightPromise\<close>. The key is made of the text before the
  cursor and the separator, and the body is built inside \<open>fetchSuggestions\<close>.
\<close>

definition buildChatCompletionBody :: "js_platform \<Rightarrow> LLMProviderSettings \<Rightarrow> jsstring \<Rightarrow> jsstring" where
  "buildChatCompletionBody platform settings priorText =
     (let clipped = clipContext priorText CHAT_COMPLETION_CONTEXT_LIMIT;
          model' = resolveModel platform settings;
          temperature' = resolveTemperature (temperature settings);
          payload =
            [(str ''temperature'', JNumber temperature'),
             (str ''messages'', JArray
                [JObject [(str ''role'', JString (str ''system'')),
                          (str ''content'', JString CHAT_COMPLETION_PROMPT)],
                 JObject [(str ''role'', JString (str ''user'')),
                          (str ''content'', JString clipped)]])];
          payload' = (case model' of
                        None \<Rightarrow> payload
                      | Some m \<Rightarrow> if m = [] then payload else payload @ [(str ''model'', JString m)])
      in JSON_stringify platform (JObject payload'))"

definition requestUrlParam_earlier :: "LLMProviderSettings \<Rightarrow> jsstring \<Rightarrow> RequestUrlParam" where
  "requestUrlParam_earlier settings body' =
     \<lparr>url = endpoint settings, http_method = str ''POST'', request_body = body',
      headers = (str ''Content-Type'', str ''application/json'')
                # (case apiKey settings of
                     None \<Rightarrow> []
                   | Some k \<Rightarrow> if k = [] then [] else [(str ''Authorization'', str ''Bearer '' @ k)]),
      request_timeout = timeout settings, throw = False\<rparr>"

record LlmSuggestionProvider_earlier =
  earlier_cacheKey :: "jsstring option"
  earlier_cacheValue :: "Suggestion list"
  earlier_inflightKey :: "jsstring option"
  earlier_inflightPromise :: "nat option"
  earlier_network :: "(RequestUrlParam \<times> jsstring) list"
  earlier_settled :: "(nat \<times> (fetch_error + Suggestion list)) list"

definition LLM_earlier :: LlmSuggestionProvider_earlier where
  "LLM_earlier = \<lparr>earlier_cacheKey = None, earlier_cacheValue = [], earlier_inflightKey = None,
                   earlier_inflightPromise = None, earlier_network = [], earlier_settled = []\<rparr>"

definition requestKey_earlier :: "SuggestionContext \<Rightarrow> jsstring" where
  \<comment> \<open>the \<open>cacheKey\<close> of \<open>getSuggestions\<close>; \<open>priorText\<close> is the document from its start to the cursor\<close>
  "requestKey_earlier context = createCacheKey_earlier (docBeforeCursor context) (separatorChar context)"

definition getSuggestions_earlier ::
  "js_platform \<Rightarrow> LlmSuggestionProvider_earlier \<Rightarrow> SuggestionContext \<Rightarrow> CompletrSettings \<Rightarrow>
   reply \<times> LlmSuggestionProvider_earlier" where
  \<comment> \<open>\<open>getSuggestions\<close> up to its \<open>await\<close>\<close>
  "getSuggestions_earlier platform st context settings =
     (let providerSettings = getLLMProviderSettings settings
      in if \<not> llm_isEnabled providerSettings then (Resolved [], st)
         else
           let priorText = docBeforeCursor context;
               key = createCacheKey_earlier priorText (separatorChar context)
           in if earlier_cacheKey st = Some key then (Resolved (earlier_cacheValue st), st)
              else (case (if earlier_inflightKey st = Some key then earlier_inflightPromise st
                          else None) of
                      Some promise \<Rightarrow> (Awaits promise, st)
                    | None \<Rightarrow>
                        (Awaits (length (earlier_network st)),
                         st\<lparr>earlier_network := earlier_network st
                               @ [(requestUrlParam_earlier providerSettings
                                     (buildChatCompletionBody platform providerSettings priorText),
                                   key)],
                            earlier_inflightKey := Some key,
                            earlier_inflightPromise := Some (length (earlier_network st))\<rparr>)))"

definition requestSettled_earlier ::
  "js_platform \<Rightarrow> nat \<Rightarrow> requestUrl_outcome \<Rightarrow> LlmSuggestionProvider_earlier \<Rightarrow>
   LlmSuggestionProvider_earlier" where
  \<comment> \<open>the \<open>n\<close>-th call of \<open>requestUrl\<close> comes back: \<open>fetchSuggestions\<close> runs to its end and the
      \<open>getSuggestions\<close> that awaits it runs from its \<open>await\<close> through its \<open>finally\<close>\<close>
  "requestSettled_earlier platform n outcome st =
     (if n < length (earlier_network st) \<and> n \<notin> fst ` set (earlier_settled st) then
        (case earlier_network st ! n of (param, key) \<Rightarrow>
           let result = fetchSuggestions platform outcome;
               st1 = st\<lparr>earlier_settled := earlier_settled st @ [(n, result)]\<rparr>;
               st2 = (case result of
                        Inl e \<Rightarrow> st1
                      | Inr suggestions' \<Rightarrow>
                          if earlier_inflightKey st1 = Some key
                          then st1\<lparr>earlier_cacheKey := Some key, earlier_cacheValue := suggestions'\<rparr>
                          else st1)
           in if earlier_inflightKey st2 = Some key
              then st2\<lparr>earlier_inflightKey := None, earlier_inflightPromise := None\<rparr>
              else st2)
      else st)"

definition delivered_earlier ::
  "LlmSuggestionProvider_earlier \<Rightarrow> reply \<Rightarrow> (fetch_error + Suggestion list) option" where
  "delivered_earlier st r =
     (case r of Resolved xs \<Rightarrow> Some (Inr xs) | Awaits n \<Rightarrow> map_of (earlier_settled st) n)"

section \<open>Properties of the dictionary provider\<close>

subsection \<open>Prefix filtering\<close>

lemma startsWith_trans: "startsWith n q \<Longrightarrow> startsWith q q0 \<Longrightarrow> startsWith n q0"
proof -
  assume a: "startsWith n q" and b: "startsWith q q0"
  from b have "length (take (length q0) q) = length q0"
    by (simp add: startsWith_def)
  then have l: "length q0 \<le> length q" by simp
  have "take (length q0) n = take (length q0) (take (length q) n)"
    using l by (simp add: min_def)
  also have "\<dots> = take (length q0) q" using a by (simp add: startsWith_def)
  also have "\<dots> = q0" using b by (simp add: startsWith_def)
  finally show ?thesis by (simp add: startsWith_def)
qed

lemma startsWith_refl: "startsWith q q"
  by (simp add: startsWith_def)

lemma filterIterable_refine:
  "startsWith q q0 \<Longrightarrow>
   filterIterable ops (filterIterable ops xs q0 ic idc) q ic idc = filterIterable ops xs q ic idc"
  unfolding filterIterable_def
  by (induction xs) (auto dest: startsWith_trans)

lemma filterIterable_idem:
  "filterIterable ops (filterIterable ops xs q ic idc) q ic idc = filterIterable ops xs q ic idc"
  by (rule filterIterable_refine[OF startsWith_refl])

lemma filterIterable_concat:
  "filterIterable ops (concat xss) q ic idc = concat (map (\<lambda>el. filterIterable ops el q ic idc) xss)"
  unfolding filterIterable_def by (simp add: filter_concat)

lemma filterIterable_scanLists:
  "startsWith q q0 \<Longrightarrow>
   filterIterable ops (scanLists ops list q0 ic idc) q ic idc = scanLists ops list q ic idc"
  unfolding scanLists_def
  by (simp add: filterIterable_concat comp_def filterIterable_refine)

lemma candidateLists_nonempty: "candidateLists ops wm ic idc fc \<noteq> []"
  by (simp add: candidateLists_def)

lemma computeMatches_consistent:
  assumes "cacheConsistent ops wm cached"
    and "canReuse = canReuseCache cached ic idc fc q"
  shows "computeMatches ops cached canReuse (candidateLists ops wm ic idc fc) q ic idc
         = scanLists ops (candidateLists ops wm ic idc fc) q ic idc"
  using assms
  by (auto simp: computeMatches_def cacheConsistent_def canReuseCache_def filterIterable_scanLists
           split: option.splits)

lemma getSuggestions_rescan:
  assumes "cacheConsistent ops (wordMap p) (suggestionCache p)"
  shows "fst (getSuggestions ops p context settings)
       = fst (getSuggestions ops (p\<lparr>suggestionCache := None\<rparr>) context settings)"
  using computeMatches_consistent[OF assms refl]
  by (simp add: getSuggestions_def Let_def earlyExit_def candidateLists_nonempty computeMatches_def)

lemma getSuggestions_consistent:
  assumes "cacheConsistent ops (wordMap p) (suggestionCache p)"
  shows "cacheConsistent ops (wordMap (snd (getSuggestions ops p context settings)))
           (suggestionCache (snd (getSuggestions ops p context settings)))"
  using computeMatches_consistent[OF assms refl] assms
  by (simp add: getSuggestions_def Let_def candidateLists_nonempty)
     (simp add: cacheConsistent_def)

text \<open>
  Every call keeps the cache consistent with the word map and leaves the word map as it is,
  so every cache that a sequence of calls on one word map builds from the empty cache is
  consistent.
\<close>

lemma getSuggestions_wordMap:
  "wordMap (snd (getSuggestions ops p context settings)) = wordMap p"
  by (simp add: getSuggestions_def Let_def)

lemma afterQueries_consistent:
  assumes "cacheConsistent ops (wordMap p) (suggestionCache p)"
  shows "wordMap (afterQueries ops p calls) = wordMap p
         \<and> cacheConsistent ops (wordMap p) (suggestionCache (afterQueries ops p calls))"
  using assms
proof (induction calls arbitrary: p)
  case Nil
  then show ?case by (simp add: afterQueries_def)
next
  case (Cons call calls)
  obtain cx settings where call: "call = (cx, settings)" by (cases call)
  let ?p = "snd (getSuggestions ops p cx settings)"
  have "cacheConsistent ops (wordMap ?p) (suggestionCache ?p)"
    using Cons.prems by (rule getSuggestions_consistent)
  from Cons.IH[OF this] show ?case
    by (simp add: afterQueries_def call getSuggestions_wordMap)
qed

lemma new_cache_consistent:
  "cacheConsistent ops (wordMap p)
     (suggestionCache (afterQueries ops (p\<lparr>suggestionCache := None\<rparr>) calls))"
  using afterQueries_consistent[of ops "p\<lparr>suggestionCache := None\<rparr>" calls]
  by (simp add: cacheConsistent_def)

subsection \<open>Sorting by display length\<close>

lemma insert_sorted_key:
  "insert_sorted (\<lambda>a b. int (f a) - int (f b)) x xs = insort_key f x xs"
  by (induction xs) auto

lemma array_sort_key: "array_sort (\<lambda>a b. int (f a) - int (f b)) xs = sort_key f xs"
  by (induction xs) (auto simp: insert_sorted_key)

lemma array_sort_displayName:
  "array_sort byDisplayNameLength xs = sort_key (\<lambda>s. length (displayName s)) xs"
  using array_sort_key[of "\<lambda>s. length (displayName s)" xs]
  by (simp add: byDisplayNameLength_def[abs_def])

lemma getSuggestions_unfold:
  "\<not> earlyExit p context settings \<Longrightarrow>
   getSuggestions ops p context settings =
     (let ignoreCase = (wordInsertionMode settings \<noteq> MATCH_CASE_REPLACE);
          ignoreDiacritics = ignoreDiacriticsWhenFiltering settings;
          q = normalized ops ignoreCase ignoreDiacritics (query context);
          firstChar = charAt q 0;
          matches = computeMatches ops (suggestionCache p)
             (canReuseCache (suggestionCache p) ignoreCase ignoreDiacritics firstChar q)
             (candidateLists ops (wordMap p) ignoreCase ignoreDiacritics firstChar)
             q ignoreCase ignoreDiacritics
      in (array_sort byDisplayNameLength
            (map (mapSuggestion (wordInsertionMode settings) (query context) q) matches),
          p\<lparr>suggestionCache := Some \<lparr>cache_query = q, cache_ignoreCase = ignoreCase,
               cache_ignoreDiacritics = ignoreDiacritics, cache_firstChar = firstChar,
               cache_matches = matches\<rparr>\<rparr>))"
  by (simp add: getSuggestions_def Let_def candidateLists_nonempty)

subsection \<open>Reusing the cache\<close>

text \<open>
  Claim C1. Let the cache hold the matches of an earlier query \<open>Q0\<close> on this word map
  (it is consistent), under the flags \<open>ignoreCase\<close> and \<open>ignoreDiacritics\<close> and the first
  character of the new normalised query \<open>Q1\<close>, and let \<open>Q1\<close> start with \<open>Q0\<close>. Then
  filtering the cached matches gives the list that scanning the candidate lists gives, in
  the same order, and \<open>getSuggestions\<close> returns what it returns from an empty cache.
\<close>

theorem cache_reuse_equals_rescan:
  assumes "cacheConsistent ops (wordMap p) (suggestionCache p)"
    and "suggestionCache p = Some c"
    and "ignoreCase = (wordInsertionMode settings \<noteq> MATCH_CASE_REPLACE)"
    and "ignoreDiacritics = ignoreDiacriticsWhenFiltering settings"
    and "q1 = normalized ops ignoreCase ignoreDiacritics (query context)"
    and "cache_ignoreCase c = ignoreCase" and "cache_ignoreDiacritics c = ignoreDiacritics"
    and "cache_firstChar c = charAt q1 0"
    and "startsWith q1 (cache_query c)"
  shows "filterIterable ops (cache_matches c) q1 ignoreCase ignoreDiacritics
           = scanLists ops (candidateLists ops (wordMap p) ignoreCase ignoreDiacritics (charAt q1 0))
               q1 ignoreCase ignoreDiacritics
         \<and> fst (getSuggestions ops p context settings)
           = fst (getSuggestions ops (p\<lparr>suggestionCache := None\<rparr>) context settings)"
proof -
  have reuse: "canReuseCache (suggestionCache p) ignoreCase ignoreDiacritics (charAt q1 0) q1"
    using assms(2,6-9) by (simp add: canReuseCache_def)
  have "computeMatches ops (suggestionCache p) True
          (candidateLists ops (wordMap p) ignoreCase ignoreDiacritics (charAt q1 0))
          q1 ignoreCase ignoreDiacritics
        = scanLists ops (candidateLists ops (wordMap p) ignoreCase ignoreDiacritics (charAt q1 0))
            q1 ignoreCase ignoreDiacritics"
    using computeMatches_consistent[OF assms(1), of True ignoreCase ignoreDiacritics "charAt q1 0" q1] reuse
    by simp
  then have m: "filterIterable ops (cache_matches c) q1 ignoreCase ignoreDiacritics
           = scanLists ops (candidateLists ops (wordMap p) ignoreCase ignoreDiacritics (charAt q1 0))
               q1 ignoreCase ignoreDiacritics"
    using assms(2) by (simp add: computeMatches_def)
  show ?thesis using m getSuggestions_rescan[OF assms(1)] by simp
qed

theorem cache_reuse_equals_rescan_witness:
  "cacheConsistent ascii_ops (wordMap wo_cached) (suggestionCache wo_cached)
   \<and> startsWith (str ''wor'') (str ''wo'')
   \<and> map displayName (fst (getSuggestions ascii_ops wo_cached (typing ''wor'') DEFAULT_SETTINGS))
       = [str ''word'', str ''work'', str ''world'']
   \<and> fst (getSuggestions ascii_ops wo_cached (typing ''wor'') DEFAULT_SETTINGS)
       = fst (getSuggestions ascii_ops (wo_cached\<lparr>suggestionCache := None\<rparr>) (typing ''wor'')
                DEFAULT_SETTINGS)"
proof -
  let ?c = "\<lparr>cache_query = str ''wo'', cache_ignoreCase = True,
       cache_ignoreDiacritics = False, cache_firstChar = str ''w'',
       cache_matches = [str ''word'', str ''world'', str ''work'']\<rparr>"
  have h1: "cacheConsistent ascii_ops (wordMap wo_cached) (suggestionCache wo_cached)"
    by code_simp
  have h2: "suggestionCache wo_cached = Some ?c" by code_simp
  have h3: "True = (wordInsertionMode DEFAULT_SETTINGS \<noteq> MATCH_CASE_REPLACE)" by code_simp
  have h4: "False = ignoreDiacriticsWhenFiltering DEFAULT_SETTINGS" by code_simp
  have h5: "str ''wor'' = normalized ascii_ops True False (query (typing ''wor''))" by code_simp
  have h8: "cache_firstChar ?c = charAt (str ''wor'') 0" by code_simp
  have h9: "startsWith (str ''wor'') (cache_query ?c)" by code_simp
  have h10: "startsWith (str ''wor'') (str ''wo'')" by code_simp
  have r: "map displayName (fst (getSuggestions ascii_ops wo_cached (typing ''wor'') DEFAULT_SETTINGS))
       = [str ''word'', str ''work'', str ''world'']" by code_simp
  from cache_reuse_equals_rescan[OF h1 h2 h3 h4 h5 _ _ h8 h9] h1 h10 r show ?thesis by simp
qed

subsection \<open>Order of the result\<close>

text \<open>
  Claim C8. The suggestions are returned in ascending order of the length of the display
  name. The sort is stable: the suggestions of any one length keep the order in which the
  matches were found (the order of the new cache entry's matches). For the query
  \<open>wor\<close>, the words \<open>word\<close>, \<open>world\<close>, \<open>work\<close> and the default, case-insensitive
  replace mode, the result is \<open>word\<close>, \<open>work\<close>, \<open>world\<close>, each a suggestion that
  replaces with the word itself.
\<close>

theorem sorted_by_displayName_length:
  "sorted (map (\<lambda>s. length (displayName s)) (fst (getSuggestions ops p context settings)))
   \<and> (\<not> earlyExit p context settings \<longrightarrow>
        (\<exists>c. suggestionCache (snd (getSuggestions ops p context settings)) = Some c
           \<and> (\<forall>k. filter (\<lambda>s. length (displayName s) = k)
                      (fst (getSuggestions ops p context settings))
                  = filter (\<lambda>s. length (displayName s) = k)
                      (map (mapSuggestion (wordInsertionMode settings) (query context) (cache_query c))
                         (cache_matches c)))))
   \<and> fst (getSuggestions ascii_ops wor_words (typing ''wor'') DEFAULT_SETTINGS)
       = [fromString (str ''word''), fromString (str ''work''), fromString (str ''world'')]"
proof -
  have a: "sorted (map (\<lambda>s. length (displayName s)) (fst (getSuggestions ops p context settings)))"
  proof (cases "earlyExit p context settings")
    case True
    then show ?thesis by (simp add: getSuggestions_def)
  next
    case False
    show ?thesis
      using getSuggestions_unfold[OF False, of ops]
      by (simp add: Let_def array_sort_displayName)
  qed
  have b: "\<not> earlyExit p context settings \<longrightarrow>
        (\<exists>c. suggestionCache (snd (getSuggestions ops p context settings)) = Some c
           \<and> (\<forall>k. filter (\<lambda>s. length (displayName s) = k)
                      (fst (getSuggestions ops p context settings))
                  = filter (\<lambda>s. length (displayName s) = k)
                      (map (mapSuggestion (wordInsertionMode settings) (query context) (cache_query c))
                         (cache_matches c))))"
  proof
    assume ne: "\<not> earlyExit p context settings"
    show "\<exists>c. suggestionCache (snd (getSuggestions ops p context settings)) = Some c
           \<and> (\<forall>k. filter (\<lambda>s. length (displayName s) = k)
                      (fst (getSuggestions ops p context settings))
                  = filter (\<lambda>s. length (displayName s) = k)
                      (map (mapSuggestion (wordInsertionMode settings) (query context) (cache_query c))
                         (cache_matches c)))"
      using getSuggestions_unfold[OF ne, of ops]
      by (simp add: Let_def array_sort_displayName sort_key_stable)
  qed
  have c: "fst (getSuggestions ascii_ops wor_words (typing ''wor'') DEFAULT_SETTINGS)
       = [fromString (str ''word''), fromString (str ''work''), fromString (str ''world'')]"
    by code_simp
  from a b c show ?thesis by blast
qed

theorem sorted_by_displayName_length_witness:
  "\<not> earlyExit wor_words (typing ''wor'') DEFAULT_SETTINGS
   \<and> map replacement (fst (getSuggestions ascii_ops wor_words (typing ''wor'') DEFAULT_SETTINGS))
       = [str ''word'', str ''work'', str ''world'']
   \<and> sorted (map (\<lambda>s. length (displayName s))
        (fst (getSuggestions ascii_ops wor_words (typing ''wor'') DEFAULT_SETTINGS)))"
proof -
  have h: "\<not> earlyExit wor_words (typing ''wor'') DEFAULT_SETTINGS" by code_simp
  from sorted_by_displayName_length[of ascii_ops wor_words "typing ''wor''" DEFAULT_SETTINGS] h
  show ?thesis by (simp add: fromString_def str_def)
qed

subsection \<open>The early exit\<close>

text \<open>
  Claim C9. When the provider is disabled, the query is empty or the query is shorter than
  \<open>minWordTriggerLength\<close>, \<open>getSuggestions\<close> returns the empty list and the provider, its
  cache included, is unchanged.
\<close>

theorem early_exit_keeps_cache:
  assumes "\<not> isEnabled p settings \<or> query context = []
           \<or> int (length (query context)) < minWordTriggerLength settings"
  shows "fst (getSuggestions ops p context settings) = []
         \<and> snd (getSuggestions ops p context settings) = p"
  using assms by (auto simp: getSuggestions_def earlyExit_def)

theorem early_exit_keeps_cache_witness:
  "int (length (query (typing ''wo''))) < minWordTriggerLength DEFAULT_SETTINGS
   \<and> fst (getSuggestions ascii_ops wo_cached (typing ''wo'') DEFAULT_SETTINGS) = []
   \<and> snd (getSuggestions ascii_ops wo_cached (typing ''wo'') DEFAULT_SETTINGS) = wo_cached"
proof -
  have h: "int (length (query (typing ''wo''))) < minWordTriggerLength DEFAULT_SETTINGS"
    by code_simp
  from early_exit_keeps_cache[of wo_cached DEFAULT_SETTINGS "typing ''wo''" ascii_ops] h show ?thesis by simp
qed

subsection \<open>Repeating a query\<close>

text \<open>
  Claim C10. When the provider is enabled and the query has the minimum length, a second
  call with the same context and settings returns the list of the first call; the cache
  that the first call leaves passes the reuse test for the same query (\<open>startsWith\<close>
  accepts the equal string), and the second call leaves the provider as the first did.
\<close>

theorem repeated_query_idempotent:
  assumes "isEnabled p settings" and "query context \<noteq> []"
    and "minWordTriggerLength settings \<le> int (length (query context))"
    and "first = getSuggestions ops p context settings"
    and "second = getSuggestions ops (snd first) context settings"
    and "ignoreCase = (wordInsertionMode settings \<noteq> MATCH_CASE_REPLACE)"
    and "ignoreDiacritics = ignoreDiacriticsWhenFiltering settings"
    and "q = normalized ops ignoreCase ignoreDiacritics (query context)"
  shows "fst second = fst first
         \<and> canReuseCache (suggestionCache (snd first)) ignoreCase ignoreDiacritics (charAt q 0) q
         \<and> snd second = snd first"
proof -
  have ne: "\<not> earlyExit p context settings"
    using assms(1-3) by (simp add: earlyExit_def)
  let ?m = "computeMatches ops (suggestionCache p)
             (canReuseCache (suggestionCache p) ignoreCase ignoreDiacritics (charAt q 0) q)
             (candidateLists ops (wordMap p) ignoreCase ignoreDiacritics (charAt q 0))
             q ignoreCase ignoreDiacritics"
  let ?c = "\<lparr>cache_query = q, cache_ignoreCase = ignoreCase,
               cache_ignoreDiacritics = ignoreDiacritics, cache_firstChar = charAt q 0,
               cache_matches = ?m\<rparr>"
  have f: "first = (array_sort byDisplayNameLength
            (map (mapSuggestion (wordInsertionMode settings) (query context) q) ?m),
          p\<lparr>suggestionCache := Some ?c\<rparr>)"
    using getSuggestions_unfold[OF ne, of ops] assms(4,6,7,8) by (simp add: Let_def)
  have reuse: "canReuseCache (Some ?c) ignoreCase ignoreDiacritics (charAt q 0) q"
    by (simp add: canReuseCache_def startsWith_refl)
  have ne2: "\<not> earlyExit (snd first) context settings"
    using ne f by (simp add: earlyExit_def)
  have idem: "filterIterable ops ?m q ignoreCase ignoreDiacritics = ?m"
    by (auto simp: computeMatches_def scanLists_def filterIterable_idem
          filterIterable_concat comp_def split: option.splits)
  have m2: "computeMatches ops (Some ?c) True
              (candidateLists ops (wordMap p) ignoreCase ignoreDiacritics (charAt q 0))
              q ignoreCase ignoreDiacritics = ?m"
    using idem by (simp add: computeMatches_def)
  have s: "second = first"
    using getSuggestions_unfold[OF ne2, of ops] assms(5,6,7,8) reuse m2 f
    by (simp add: Let_def)
  show ?thesis using s f reuse by simp
qed

theorem repeated_query_idempotent_witness:
  "isEnabled wor_words DEFAULT_SETTINGS
   \<and> minWordTriggerLength DEFAULT_SETTINGS \<le> int (length (query (typing ''wor'')))
   \<and> fst (getSuggestions ascii_ops
            (snd (getSuggestions ascii_ops wor_words (typing ''wor'') DEFAULT_SETTINGS))
            (typing ''wor'') DEFAULT_SETTINGS)
      = fst (getSuggestions ascii_ops wor_words (typing ''wor'') DEFAULT_SETTINGS)
   \<and> canReuseCache
        (suggestionCache (snd (getSuggestions ascii_ops wor_words (typing ''wor'') DEFAULT_SETTINGS)))
        True False (str ''w'') (str ''wor'')"
proof -
  have h1: "isEnabled wor_words DEFAULT_SETTINGS" by code_simp
  have h2: "query (typing ''wor'') \<noteq> []" by code_simp
  have h3: "minWordTriggerLength DEFAULT_SETTINGS \<le> int (length (query (typing ''wor'')))"
    by code_simp
  have h6: "True = (wordInsertionMode DEFAULT_SETTINGS \<noteq> MATCH_CASE_REPLACE)" by code_simp
  have h7: "False = ignoreDiacriticsWhenFiltering DEFAULT_SETTINGS" by code_simp
  have h8: "str ''wor'' = normalized ascii_ops True False (query (typing ''wor''))" by code_simp
  have fc: "charAt (str ''wor'') 0 = str ''w''" by code_simp
  from repeated_query_idempotent[OF h1 h2 h3 refl refl h6 h7 h8] h1 h3 fc show ?thesis by simp
qed

section \<open>Properties of the aggregator\<close>

subsection \<open>Settling the pending tasks\<close>

lemma settleTask_length [simp]:
  "length (providerResults (settleTask t st)) = length (providerResults st)"
  by (cases t) (simp add: settleTask_def Let_def)

lemma awaitAllSettled_length [simp]:
  "length (providerResults (awaitAllSettled ts st)) = length (providerResults st)"
  unfolding awaitAllSettled_def by (induction ts arbitrary: st) auto

lemma awaitAllSettled_snoc:
  "awaitAllSettled (ts @ [t]) st = settleTask t (awaitAllSettled ts st)"
  by (simp add: awaitAllSettled_def)

lemma settleTask_slot:
  "providerResults (settleTask (i, b, out) st) = (providerResults st)[i := Some (settledResults out)]"
  by (simp add: settleTask_def Let_def)

lemma awaitAllSettled_untouched:
  "\<forall>t\<in>set ts. fst t \<noteq> j \<Longrightarrow>
   providerResults (awaitAllSettled ts st) ! j = providerResults st ! j"
proof (induction ts rule: rev_induct)
  case Nil
  then show ?case by (simp add: awaitAllSettled_def)
next
  case (snoc t ts)
  obtain i b out where t: "t = (i, b, out)" by (cases t)
  with snoc show ?case
    by (simp add: awaitAllSettled_snoc settleTask_slot)
qed

lemma awaitAllSettled_slot:
  assumes "j < length (providerResults st)"
    and "\<exists>t\<in>set ts. fst t = j"
    and "\<forall>t\<in>set ts. fst t = j \<longrightarrow> settledResults (snd (snd t)) = v"
  shows "providerResults (awaitAllSettled ts st) ! j = Some v"
  using assms(2,3)
proof (induction ts rule: rev_induct)
  case Nil
  then show ?case by simp
next
  case (snoc t ts)
  obtain i b out where t: "t = (i, b, out)" by (cases t)
  show ?case
  proof (cases "i = j")
    case True
    with snoc.prems t assms(1) show ?thesis
      by (simp add: awaitAllSettled_snoc settleTask_slot)
  next
    case False
    with snoc.prems t have "\<exists>t\<in>set ts. fst t = j" by auto
    moreover from snoc.prems have "\<forall>t\<in>set ts. fst t = j \<longrightarrow> settledResults (snd (snd t)) = v"
      by auto
    ultimately have "providerResults (awaitAllSettled ts st) ! j = Some v"
      by (rule snoc.IH)
    with False t show ?thesis
      by (simp add: awaitAllSettled_snoc settleTask_slot)
  qed
qed

lemma settleTask_blocking:
  "blockingIndex (settleTask t st) = minBlocking (blockingIndex st) (blockersOf [t])"
  by (cases t) (simp add: settleTask_def Let_def minBlocking_def blockersOf_def)

lemma minBlocking_append: "minBlocking init (xs @ ys) = minBlocking (minBlocking init xs) ys"
  by (simp add: minBlocking_def)

lemma awaitAllSettled_blocking:
  "blockingIndex (awaitAllSettled ts st) = minBlocking (blockingIndex st) (blockersOf ts)"
proof (induction ts rule: rev_induct)
  case Nil
  then show ?case by (simp add: awaitAllSettled_def minBlocking_def blockersOf_def)
next
  case (snoc t ts)
  have "blockersOf (ts @ [t]) = blockersOf ts @ blockersOf [t]"
    by (simp add: blockersOf_def)
  with snoc show ?case
    by (simp add: awaitAllSettled_snoc settleTask_blocking minBlocking_append)
qed

lemma minBlocking_Some: "minBlocking (Some b) js = Some (fold min js b)"
proof (induction js arbitrary: b)
  case Nil
  then show ?case by (simp add: minBlocking_def)
next
  case (Cons j js)
  have "minBlocking (Some b) (j # js) = minBlocking (Some (min b j)) js"
    by (simp add: minBlocking_def)
  with Cons show ?case by (simp add: min.commute)
qed

lemma minBlocking_Min:
  "minBlocking init js =
     (if init = None \<and> js = [] then None else Some (Min (set_option init \<union> set js)))"
proof (cases init)
  case None
  show ?thesis
  proof (cases js)
    case Nil
    with None show ?thesis by (simp add: minBlocking_def)
  next
    case (Cons j js')
    have "minBlocking None (j # js') = minBlocking (Some j) js'"
      by (simp add: minBlocking_def)
    with None Cons show ?thesis
      by (simp add: minBlocking_Some Min.set_eq_fold[symmetric])
  qed
next
  case (Some b)
  then show ?thesis
    by (simp add: minBlocking_Some Min.set_eq_fold[symmetric])
qed

lemma minBlocking_least:
  assumes "init = Some i \<or> i \<in> set js"
    and "\<forall>j\<in>set js. i \<le> j"
    and "\<forall>b. init = Some b \<longrightarrow> i \<le> b"
  shows "minBlocking init js = Some i"
proof -
  have ne: "\<not> (init = None \<and> js = [])" using assms(1) by auto
  have "Min (set_option init \<union> set js) = i"
  proof (rule Min_eqI)
    show "finite (set_option init \<union> set js)" by simp
    show "\<And>y. y \<in> set_option init \<union> set js \<Longrightarrow> i \<le> y"
      using assms(2,3) by (cases init) auto
    show "i \<in> set_option init \<union> set js" using assms(1) by auto
  qed
  with ne show ?thesis by (simp add: minBlocking_Min)
qed

subsection \<open>The fan-out loop\<close>

lemma fannedOut_promise:
  assumes "fannedOut ps c s i st" and "i < length ps"
    and "call_getSuggestions (ps ! i) c s = ReturnsPromise out"
  shows "fannedOut ps c s (Suc i)
           (st\<lparr>pendingAsync := pendingAsync st @ [(i, blocksAllOtherProviders (ps ! i), out)]\<rparr>)"
  using assms unfolding fannedOut_def
  by (auto simp: less_Suc_eq)

lemma fannedOut_returns:
  assumes "fannedOut ps c s i st" and "i < length ps"
    and "call_getSuggestions (ps ! i) c s = Returns r"
  shows "fannedOut ps c s (Suc i)
           (st\<lparr>providerResults := (providerResults st)[i := Some (orEmpty r)]\<rparr>)"
  using assms unfolding fannedOut_def
  by (auto simp: less_Suc_eq nth_list_update)

lemma fannedOut_frame:
  "fannedOut ps c s k st \<Longrightarrow> fannedOut ps c s k (st\<lparr>contextStart := x, blockingIndex := y\<rparr>)"
  unfolding fannedOut_def by simp

lemma fanOut_result:
  assumes "fanOut ps c s k st = Inr st'" and "blockingIndex st = None" and "k \<le> length ps"
    and "fannedOut ps c s k st" and "\<forall>j<k. \<not> isSyncBlocker ps c s j"
  shows "\<exists>k'. k' \<le> length ps \<and> fannedOut ps c s k' st'
           \<and> ((blockingIndex st' = None \<and> k' = length ps \<and> (\<forall>j<k'. \<not> isSyncBlocker ps c s j))
              \<or> (\<exists>b. blockingIndex st' = Some b \<and> k' = Suc b \<and> isSyncBlocker ps c s b
                    \<and> (\<forall>j<b. \<not> isSyncBlocker ps c s j)))"
  using assms
proof (induction ps c s k st rule: fanOut.induct)
  case (1 providers cx settings i st)
  show ?case
  proof (cases "i < length providers")
    case False
    then have "st' = st" using "1.prems"(1) by (subst (asm) fanOut.simps) simp
    moreover have "i = length providers" using False "1.prems"(3) by simp
    ultimately show ?thesis using "1.prems" by auto
  next
    case True
    have nb: "\<not> beyondBlockingIndex (blockingIndex st) i"
      using "1.prems"(2) by (simp add: beyondBlockingIndex_def)
    show ?thesis
    proof (cases "call_getSuggestions (providers ! i) cx settings")
      case Throws
      then have False using "1.prems"(1) True nb by (subst (asm) fanOut.simps) simp
      then show ?thesis ..
    next
      case (ReturnsPromise out)
      let ?st = "st\<lparr>pendingAsync :=
                      pendingAsync st @ [(i, blocksAllOtherProviders (providers ! i), out)]\<rparr>"
      have run: "fanOut providers cx settings (Suc i) ?st = Inr st'"
        using "1.prems"(1) True nb ReturnsPromise by (subst (asm) fanOut.simps) simp
      have nsb: "\<not> isSyncBlocker providers cx settings i"
        using ReturnsPromise by (simp add: isSyncBlocker_def)
      have "\<forall>j<Suc i. \<not> isSyncBlocker providers cx settings j"
        using "1.prems"(5) nsb by (simp add: less_Suc_eq)
      moreover have "fannedOut providers cx settings (Suc i) ?st"
        using fannedOut_promise[OF "1.prems"(4) True ReturnsPromise] .
      moreover have "blockingIndex ?st = None" using "1.prems"(2) by simp
      moreover have "Suc i \<le> length providers" using True by simp
      ultimately show ?thesis
        using "1.IH"(2)[OF True nb ReturnsPromise run] by blast
    next
      case (Returns r)
      let ?st1 = "st\<lparr>providerResults := (providerResults st)[i := Some (orEmpty r)]\<rparr>"
      have fo: "fannedOut providers cx settings (Suc i) ?st1"
        using fannedOut_returns[OF "1.prems"(4) True Returns] .
      show ?thesis
      proof (cases "orEmpty r \<noteq> [] \<and> blocksAllOtherProviders (providers ! i)")
        case True
        have "st' = ?st1\<lparr>contextStart := fixPopupPosition (orEmpty r) (contextStart ?st1),
                                 blockingIndex := Some i\<rparr>"
          using "1.prems"(1) \<open>i < length providers\<close> nb Returns True
          by (subst (asm) fanOut.simps) (simp add: Let_def)
        moreover have "isSyncBlocker providers cx settings i"
          using Returns True by (simp add: isSyncBlocker_def)
        ultimately show ?thesis
          using fannedOut_frame[OF fo] "1.prems"(5) \<open>i < length providers\<close>
          by (intro exI[of _ "Suc i"]) auto
      next
        case False
        have run: "fanOut providers cx settings (Suc i) ?st1 = Inr st'"
          using "1.prems"(1) \<open>i < length providers\<close> nb Returns False
          by (subst (asm) fanOut.simps) (auto simp: Let_def)
        have nsb: "\<not> isSyncBlocker providers cx settings i"
          using Returns False by (auto simp: isSyncBlocker_def)
        have a: "\<forall>j<Suc i. \<not> isSyncBlocker providers cx settings j"
          using "1.prems"(5) nsb by (simp add: less_Suc_eq)
        have b: "blockingIndex ?st1 = None" using "1.prems"(2) by simp
        have c: "Suc i \<le> length providers" using \<open>i < length providers\<close> by simp
        show ?thesis
          using "1.IH"(1)[OF \<open>i < length providers\<close> nb Returns refl refl False run b c fo a] .
      qed
    qed
  qed
qed

subsection \<open>The blocking index and the slots below it\<close>

lemma fannedOut_initial:
  "fannedOut ps c s 0 \<lparr>providerResults = replicate (length ps) None, pendingAsync = [],
      blockingIndex = None, contextStart = start\<rparr>"
  by (simp add: fannedOut_def)

lemma isSyncBlocker_blocksWith:
  "isSyncBlocker ps c s j \<Longrightarrow> blocksWith (ps ! j) c s"
  by (auto simp: isSyncBlocker_def blocksWith_def contribution_def)

lemma blockersOf_iff:
  "j \<in> set (blockersOf ts) \<longleftrightarrow> (\<exists>out. (j, True, out) \<in> set ts \<and> settledResults out \<noteq> [])"
  by (auto simp: blockersOf_def image_iff)

lemma addSuggestions_subset:
  "set (snd (addSuggestions bl xs acc)) \<subseteq> set (snd acc) \<union> set xs"
  by (induction bl xs acc rule: addSuggestions.induct) auto

lemma mergeResults_subset:
  "set (snd (mergeResults bl slots acc)) \<subseteq> set (snd acc) \<union> (\<Union>slot\<in>set slots. set (orEmpty slot))"
proof (induction slots arbitrary: acc)
  case Nil
  then show ?case by simp
next
  case (Cons slot slots)
  show ?case
  proof (cases slot)
    case None
    then show ?thesis using Cons[of acc] by (auto simp: orEmpty_def)
  next
    case (Some xs)
    show ?thesis
    proof (cases "xs = []")
      case True
      with Some show ?thesis using Cons[of acc] by (auto simp: orEmpty_def)
    next
      case False
      with Some show ?thesis
        using Cons[of "addSuggestions bl xs acc"] addSuggestions_subset[of bl xs acc]
        by (auto simp: orEmpty_def)
    qed
  qed
qed

lemma mergeUpTo_from:
  assumes "mergeUpTo bl i (map (\<lambda>p. Some (f p)) ps) = Some xs" and "x \<in> set xs"
  shows "\<exists>j\<le>i. j < length ps \<and> x \<in> set (f (ps ! j))"
proof -
  let ?slots = "take (Suc i) (map (\<lambda>p. Some (f p)) ps)"
  from assms(1) have "xs = snd (mergeResults bl ?slots ([], []))"
    by (simp add: mergeUpTo_def Let_def split: if_splits)
  with assms(2) mergeResults_subset[of bl ?slots "([], [])"]
  have "x \<in> (\<Union>slot\<in>set ?slots. set (orEmpty slot))" by auto
  then obtain slot where sl: "slot \<in> set ?slots" and x: "x \<in> set (orEmpty slot)" by blast
  from sl obtain j where j: "j < length ?slots" and sj: "?slots ! j = slot"
    by (auto simp: in_set_conv_nth)
  from j have "j \<le> i" and "j < length ps" by auto
  with sj x show ?thesis by (auto simp: orEmpty_def)
qed

lemma aggregate_blocking_cutoff:
  assumes i: "i < length ps"
    and bw: "blocksWith (ps ! i) c s"
    and least: "\<forall>j<i. \<not> blocksWith (ps ! j) c s"
    and run: "fanOut ps c s 0 \<lparr>providerResults = replicate (length ps) None, pendingAsync = [],
                blockingIndex = None, contextStart = start\<rparr> = Inr st"
    and perm: "set ts = set (pendingAsync st)"
  shows "blockingIndex (awaitAllSettled ts st) = Some i
         \<and> take (Suc i) (providerResults (awaitAllSettled ts st))
             = take (Suc i) (map (\<lambda>p. Some (contribution p c s)) ps)"
proof -
  from fanOut_result[OF run _ _ fannedOut_initial] obtain k' where
    k': "k' \<le> length ps" and fo: "fannedOut ps c s k' st" and
    stop: "(blockingIndex st = None \<and> k' = length ps \<and> (\<forall>j<k'. \<not> isSyncBlocker ps c s j))
              \<or> (\<exists>b. blockingIndex st = Some b \<and> k' = Suc b \<and> isSyncBlocker ps c s b
                    \<and> (\<forall>j<b. \<not> isSyncBlocker ps c s j))"
    by auto
  have least': "\<And>j. j < length ps \<Longrightarrow> blocksWith (ps ! j) c s \<Longrightarrow> i \<le> j"
    using least by (meson not_less)
  have ik: "i < k'"
    using stop
  proof
    assume "blockingIndex st = None \<and> k' = length ps \<and> (\<forall>j<k'. \<not> isSyncBlocker ps c s j)"
    then show ?thesis using i by simp
  next
    assume "\<exists>b. blockingIndex st = Some b \<and> k' = Suc b \<and> isSyncBlocker ps c s b
                    \<and> (\<forall>j<b. \<not> isSyncBlocker ps c s j)"
    then obtain b where b: "k' = Suc b" "isSyncBlocker ps c s b" by blast
    with k' have "b < length ps" by simp
    with b least' isSyncBlocker_blocksWith have "i \<le> b" by blast
    with b show ?thesis by simp
  qed
  have fo_sync: "\<And>j r. j < k' \<Longrightarrow> call_getSuggestions (ps ! j) c s = Returns r
                    \<Longrightarrow> providerResults st ! j = Some (orEmpty r)"
    using fo by (simp add: fannedOut_def)
  have fo_async: "\<And>j out. j < k' \<Longrightarrow> call_getSuggestions (ps ! j) c s = ReturnsPromise out
                    \<Longrightarrow> (j, blocksAllOtherProviders (ps ! j), out) \<in> set (pendingAsync st)"
    using fo by (simp add: fannedOut_def)
  have fo_nothrow: "\<And>j. j < k' \<Longrightarrow> call_getSuggestions (ps ! j) c s \<noteq> Throws"
    using fo by (simp add: fannedOut_def)
  have fo_task: "\<And>t. t \<in> set (pendingAsync st) \<Longrightarrow> fst t < k'
                   \<and> fst (snd t) = blocksAllOtherProviders (ps ! fst t)
                   \<and> call_getSuggestions (ps ! fst t) c s = ReturnsPromise (snd (snd t))"
    using fo by (simp add: fannedOut_def)
  have len: "length (providerResults st) = length ps"
    using fo by (simp add: fannedOut_def)
  \<comment> \<open>the blocking index\<close>
  have a: "blockingIndex st = Some i \<or> i \<in> set (blockersOf ts)"
  proof (cases "call_getSuggestions (ps ! i) c s")
    case Throws
    then show ?thesis using bw by (simp add: blocksWith_def contribution_def)
  next
    case (Returns r)
    then have sb: "isSyncBlocker ps c s i"
      using bw by (simp add: isSyncBlocker_def blocksWith_def contribution_def)
    from stop show ?thesis
    proof
      assume "blockingIndex st = None \<and> k' = length ps \<and> (\<forall>j<k'. \<not> isSyncBlocker ps c s j)"
      with sb i show ?thesis by auto
    next
      assume "\<exists>b. blockingIndex st = Some b \<and> k' = Suc b \<and> isSyncBlocker ps c s b
                    \<and> (\<forall>j<b. \<not> isSyncBlocker ps c s j)"
      then obtain b where b: "blockingIndex st = Some b" "k' = Suc b" "isSyncBlocker ps c s b"
        "\<forall>j<b. \<not> isSyncBlocker ps c s j" by blast
      from b(4) sb have "b \<le> i" by (meson not_less)
      moreover from ik b(2) have "i \<le> b" by simp
      ultimately show ?thesis using b(1) by simp
    qed
  next
    case (ReturnsPromise out)
    from fo_async[OF ik ReturnsPromise] bw ReturnsPromise perm
    have "(i, True, out) \<in> set ts \<and> settledResults out \<noteq> []"
      by (simp add: blocksWith_def contribution_def)
    then show ?thesis by (auto simp: blockersOf_iff)
  qed
  have b: "\<forall>j\<in>set (blockersOf ts). i \<le> j"
  proof
    fix j assume "j \<in> set (blockersOf ts)"
    then obtain out where t: "(j, True, out) \<in> set (pendingAsync st)" and ne: "settledResults out \<noteq> []"
      using perm by (auto simp: blockersOf_iff)
    from fo_task[OF t] have "j < k'" "blocksAllOtherProviders (ps ! j)"
      "call_getSuggestions (ps ! j) c s = ReturnsPromise out" by auto
    with ne k' have "j < length ps" "blocksWith (ps ! j) c s"
      by (auto simp: blocksWith_def contribution_def)
    then show "i \<le> j" by (rule least')
  qed
  have c': "\<forall>b. blockingIndex st = Some b \<longrightarrow> i \<le> b"
  proof (intro allI impI)
    fix b assume "blockingIndex st = Some b"
    with stop have "k' = Suc b" "isSyncBlocker ps c s b" by auto
    with k' isSyncBlocker_blocksWith[of ps c s b] least'[of b] show "i \<le> b" by simp
  qed
  have bi: "blockingIndex (awaitAllSettled ts st) = Some i"
    using minBlocking_least[OF a b c'] by (simp add: awaitAllSettled_blocking)
  \<comment> \<open>the slots up to the blocking index\<close>
  have slot: "providerResults (awaitAllSettled ts st) ! j = Some (contribution (ps ! j) c s)"
    if "j \<le> i" for j
  proof -
    from that ik have jk: "j < k'" by simp
    show ?thesis
    proof (cases "call_getSuggestions (ps ! j) c s")
      case Throws
      with fo_nothrow[OF jk] show ?thesis by simp
    next
      case (Returns r)
      have "\<forall>t\<in>set ts. fst t \<noteq> j"
      proof
        fix t assume "t \<in> set ts"
        with perm fo_task[of t] Returns show "fst t \<noteq> j" by auto
      qed
      then have "providerResults (awaitAllSettled ts st) ! j = providerResults st ! j"
        by (rule awaitAllSettled_untouched)
      with fo_sync[OF jk Returns] Returns show ?thesis by (simp add: contribution_def)
    next
      case (ReturnsPromise out)
      have "j < length (providerResults st)" using jk k' len by simp
      moreover have "\<exists>t\<in>set ts. fst t = j"
        using fo_async[OF jk ReturnsPromise] perm by force
      moreover have "\<forall>t\<in>set ts. fst t = j \<longrightarrow> settledResults (snd (snd t)) = settledResults out"
      proof (intro ballI impI)
        fix t assume "t \<in> set ts" "fst t = j"
        with perm fo_task[of t] ReturnsPromise show "settledResults (snd (snd t)) = settledResults out"
          by auto
      qed
      ultimately have "providerResults (awaitAllSettled ts st) ! j = Some (settledResults out)"
        by (rule awaitAllSettled_slot)
      with ReturnsPromise show ?thesis by (simp add: contribution_def)
    qed
  qed
  have "take (Suc i) (providerResults (awaitAllSettled ts st))
             = take (Suc i) (map (\<lambda>p. Some (contribution p c s)) ps)"
  proof (rule nth_equalityI)
    show "length (take (Suc i) (providerResults (awaitAllSettled ts st)))
          = length (take (Suc i) (map (\<lambda>p. Some (contribution p c s)) ps))"
      using len by simp
  next
    fix j assume "j < length (take (Suc i) (providerResults (awaitAllSettled ts st)))"
    then have "j \<le> i" "j < length ps" using len by auto
    then show "take (Suc i) (providerResults (awaitAllSettled ts st)) ! j
               = take (Suc i) (map (\<lambda>p. Some (contribution p c s)) ps) ! j"
      using slot[of j] by simp
  qed
  with bi show ?thesis by simp
qed

lemma mergeUpTo_take:
  "take (Suc i) slots = take (Suc i) slots' \<Longrightarrow> mergeUpTo bl i slots = mergeUpTo bl i slots'"
  by (simp add: mergeUpTo_def)


text \<open>
  Claim C4. Let the provider at index \<open>i\<close> be flagged \<open>blocksAllOtherProviders\<close> and
  contribute at least one suggestion, synchronously or through its promise, and let no
  provider at a lower index block. Then, in whatever order the pending promises settle
  (\<open>settleOrder\<close> permutes the tasks), a query that completes returns the merge of the
  contributions of the providers at the indices up to \<open>i\<close>: every suggestion of the result
  is a suggestion of one of them, whatever the providers beyond \<open>i\<close> were launched with
  and returned. With several blocking asynchronous providers the least index is the cutoff.
\<close>

theorem blocking_cutoff:
  assumes "i < length (PROVIDERS popup)"
    and "c = providerContext popup context" and "s = popup_settings popup"
    and "blocksAllOtherProviders (PROVIDERS popup ! i)"
    and "contribution (PROVIDERS popup ! i) c s \<noteq> []"
    and "\<forall>j<i. \<not> blocksWith (PROVIDERS popup ! j) c s"
    and "\<forall>tasks. mset (settleOrder tasks) = mset tasks"
    and "popup_getSuggestions popup settleOrder context = Inr (result, start)"
  shows "result = mergeUpTo (SuggestionBlacklist_has popup) i
                    (map (\<lambda>provider. Some (contribution provider c s)) (PROVIDERS popup))
         \<and> (\<forall>suggestion\<in>set (orEmpty result).
               \<exists>j\<le>i. suggestion \<in> set (contribution (PROVIDERS popup ! j) c s))"
proof -
  let ?ps = "PROVIDERS popup"
  let ?st0 = "\<lparr>providerResults = replicate (length ?ps) None, pendingAsync = [],
              blockingIndex = None, contextStart = popup_contextStart popup\<rparr>"
  from assms(8) obtain st where run: "fanOut ?ps c s 0 ?st0 = Inr st"
    by (auto simp: popup_getSuggestions_def assms(2,3) split: sum.splits)
  let ?ts = "settleOrder (pendingAsync st)"
  have perm: "set ?ts = set (pendingAsync st)"
    using assms(7) by (metis set_mset_mset)
  have empty: "pendingAsync st = [] \<Longrightarrow> ?ts = []"
    using assms(7) by (metis mset_zero_iff)
  have st1: "(if length (pendingAsync st) > 0 then awaitAllSettled ?ts st else st)
             = awaitAllSettled ?ts st"
    using empty by (auto simp: awaitAllSettled_def)
  have bw: "blocksWith (?ps ! i) c s" using assms(4,5) by (simp add: blocksWith_def)
  from aggregate_blocking_cutoff[OF assms(1) bw assms(6) run perm]
  have bi: "blockingIndex (awaitAllSettled ?ts st) = Some i"
    and slots: "take (Suc i) (providerResults (awaitAllSettled ?ts st))
             = take (Suc i) (map (\<lambda>p. Some (contribution p c s)) ?ps)"
    by simp_all
  have "result = mergeUpTo (SuggestionBlacklist_has popup) i (providerResults (awaitAllSettled ?ts st))"
    using assms(8) run st1 bi
    by (simp add: popup_getSuggestions_def assms(2,3)[symmetric] Let_def lastIndex_def
             del: length_greater_0_conv)
  then have r: "result = mergeUpTo (SuggestionBlacklist_has popup) i
                    (map (\<lambda>provider. Some (contribution provider c s)) ?ps)"
    using mergeUpTo_take[OF slots] by simp
  have "\<forall>suggestion\<in>set (orEmpty result).
               \<exists>j\<le>i. suggestion \<in> set (contribution (?ps ! j) c s)"
  proof
    fix x assume x: "x \<in> set (orEmpty result)"
    then obtain xs where xs: "result = Some xs" "x \<in> set xs"
      by (cases result) (auto simp: orEmpty_def)
    from mergeUpTo_from[of "SuggestionBlacklist_has popup" i "\<lambda>p. contribution p c s" ?ps xs x] r xs
    show "\<exists>j\<le>i. x \<in> set (contribution (?ps ! j) c s)" by auto
  qed
  with r show ?thesis by simp
qed

theorem blocking_cutoff_witness:
  "popup_getSuggestions (popupWith demo_providers) rev (typed ''al'')
     = Inr (Some [suggest ''alpha'', suggest ''beta''], (0, 1))
   \<and> contribution (demo_providers ! 2) (providerContext (popupWith demo_providers) (typed ''al''))
        DEFAULT_SETTINGS = [suggest ''gamma'']
   \<and> contribution (demo_providers ! 3) (providerContext (popupWith demo_providers) (typed ''al''))
        DEFAULT_SETTINGS = [suggest ''delta'']
   \<and> Some [suggest ''alpha'', suggest ''beta'']
       = mergeUpTo (SuggestionBlacklist_has (popupWith demo_providers)) 1
           (map (\<lambda>provider. Some (contribution provider
                   (providerContext (popupWith demo_providers) (typed ''al'')) DEFAULT_SETTINGS))
              (PROVIDERS (popupWith demo_providers)))"
proof -
  let ?popup = "popupWith demo_providers"
  let ?c = "providerContext ?popup (typed ''al'')"
  have s: "popup_settings ?popup = DEFAULT_SETTINGS" by (simp add: popupWith_def)
  have h1: "1 < length (PROVIDERS ?popup)" by code_simp
  have h4: "blocksAllOtherProviders (PROVIDERS ?popup ! 1)" by code_simp
  have h5: "contribution (PROVIDERS ?popup ! 1) ?c DEFAULT_SETTINGS \<noteq> []" by code_simp
  have "\<not> blocksWith (PROVIDERS ?popup ! 0) ?c DEFAULT_SETTINGS" by code_simp
  then have h6: "\<forall>j<1. \<not> blocksWith (PROVIDERS ?popup ! j) ?c DEFAULT_SETTINGS" by simp
  have h7: "\<forall>tasks::async_task list. mset (rev tasks) = mset tasks" by simp
  have h8: "popup_getSuggestions ?popup rev (typed ''al'')
     = Inr (Some [suggest ''alpha'', suggest ''beta''], (0, 1))"
    by code_simp
  have g: "contribution (demo_providers ! 2) ?c DEFAULT_SETTINGS = [suggest ''gamma'']"
    by code_simp
  have d: "contribution (demo_providers ! 3) ?c DEFAULT_SETTINGS = [suggest ''delta'']"
    by code_simp
  from blocking_cutoff[OF h1 refl s[symmetric] h4 h5 h6 h7 h8] h8 g d
  show ?thesis by simp
qed

subsection \<open>Without a blocking provider\<close>

text \<open>
  The fan-out loop ends without an exception when no call of \<open>getSuggestions\<close> throws,
  every slot below the index where the loop stopped holds the contribution of its provider
  once the pending promises have settled, and without a blocking provider every slot does.
\<close>

lemma fanOut_completes:
  assumes "\<forall>j<length ps. call_getSuggestions (ps ! j) c s \<noteq> Throws"
  shows "\<exists>st'. fanOut ps c s k st = Inr st'"
  using assms
proof (induction ps c s k st rule: fanOut.induct)
  case (1 providers cx settings i st)
  show ?case
  proof (cases "i < length providers \<and> \<not> beyondBlockingIndex (blockingIndex st) i")
    case False
    then show ?thesis by (subst fanOut.simps) auto
  next
    case True
    then have i: "i < length providers" and nb: "\<not> beyondBlockingIndex (blockingIndex st) i"
      by simp_all
    show ?thesis
    proof (cases "call_getSuggestions (providers ! i) cx settings")
      case Throws
      with "1.prems" i show ?thesis by simp
    next
      case (Returns r)
      show ?thesis
      proof (cases "orEmpty r \<noteq> [] \<and> blocksAllOtherProviders (providers ! i)")
        case True
        then show ?thesis using i nb Returns by (subst fanOut.simps) (simp add: Let_def)
      next
        case False
        from "1.IH"(1)[OF i nb Returns refl refl False "1.prems"]
        show ?thesis using i nb Returns False by (subst fanOut.simps) (auto simp: Let_def)
      qed
    next
      case (ReturnsPromise out)
      from "1.IH"(2)[OF i nb ReturnsPromise "1.prems"]
      show ?thesis using i nb ReturnsPromise by (subst fanOut.simps) simp
    qed
  qed
qed

lemma settled_slot:
  assumes fo: "fannedOut ps c s k st" and k: "k \<le> length ps" and j: "j < k"
    and perm: "set ts = set (pendingAsync st)"
  shows "providerResults (awaitAllSettled ts st) ! j = Some (contribution (ps ! j) c s)"
proof -
  have fo_task: "\<And>t. t \<in> set (pendingAsync st) \<Longrightarrow> fst t < k
                   \<and> fst (snd t) = blocksAllOtherProviders (ps ! fst t)
                   \<and> call_getSuggestions (ps ! fst t) c s = ReturnsPromise (snd (snd t))"
    using fo by (simp add: fannedOut_def)
  have len: "length (providerResults st) = length ps"
    using fo by (simp add: fannedOut_def)
  show ?thesis
  proof (cases "call_getSuggestions (ps ! j) c s")
    case Throws
    with fo j show ?thesis by (simp add: fannedOut_def)
  next
    case (Returns r)
    have "\<forall>t\<in>set ts. fst t \<noteq> j"
    proof
      fix t assume "t \<in> set ts"
      with perm fo_task[of t] Returns show "fst t \<noteq> j" by auto
    qed
    then have "providerResults (awaitAllSettled ts st) ! j = providerResults st ! j"
      by (rule awaitAllSettled_untouched)
    moreover have "providerResults st ! j = Some (orEmpty r)"
      using fo j Returns by (simp add: fannedOut_def)
    ultimately show ?thesis using Returns by (simp add: contribution_def)
  next
    case (ReturnsPromise out)
    have "j < length (providerResults st)" using j k len by simp
    moreover have "(j, blocksAllOtherProviders (ps ! j), out) \<in> set (pendingAsync st)"
      using fo j ReturnsPromise by (simp add: fannedOut_def)
    then have "\<exists>t\<in>set ts. fst t = j" using perm by force
    moreover have "\<forall>t\<in>set ts. fst t = j \<longrightarrow> settledResults (snd (snd t)) = settledResults out"
    proof (intro ballI impI)
      fix t assume "t \<in> set ts" "fst t = j"
      with perm fo_task[of t] ReturnsPromise show "settledResults (snd (snd t)) = settledResults out"
        by auto
    qed
    ultimately have "providerResults (awaitAllSettled ts st) ! j = Some (settledResults out)"
      by (rule awaitAllSettled_slot)
    with ReturnsPromise show ?thesis by (simp add: contribution_def)
  qed
qed

lemma aggregate_no_blocker:
  assumes none: "\<forall>j<length ps. \<not> blocksWith (ps ! j) c s"
    and run: "fanOut ps c s 0 \<lparr>providerResults = replicate (length ps) None, pendingAsync = [],
                blockingIndex = None, contextStart = start\<rparr> = Inr st"
    and perm: "set ts = set (pendingAsync st)"
  shows "blockingIndex (awaitAllSettled ts st) = None
         \<and> providerResults (awaitAllSettled ts st) = map (\<lambda>p. Some (contribution p c s)) ps"
proof -
  from fanOut_result[OF run _ _ fannedOut_initial] obtain k' where
    k': "k' \<le> length ps" and fo: "fannedOut ps c s k' st" and
    stop: "(blockingIndex st = None \<and> k' = length ps \<and> (\<forall>j<k'. \<not> isSyncBlocker ps c s j))
              \<or> (\<exists>b. blockingIndex st = Some b \<and> k' = Suc b \<and> isSyncBlocker ps c s b
                    \<and> (\<forall>j<b. \<not> isSyncBlocker ps c s j))"
    by auto
  have nosync: "\<And>b. b < length ps \<Longrightarrow> \<not> isSyncBlocker ps c s b"
    using none isSyncBlocker_blocksWith by blast
  from stop have b0: "blockingIndex st = None" and kk: "k' = length ps"
    using nosync k' by auto
  have "blockersOf ts = []"
  proof (rule ccontr)
    assume "blockersOf ts \<noteq> []"
    then obtain j where "j \<in> set (blockersOf ts)" by (cases "blockersOf ts") auto
    then obtain out where t: "(j, True, out) \<in> set (pendingAsync st)" and ne: "settledResults out \<noteq> []"
      using perm by (auto simp: blockersOf_iff)
    from fo t have "j < k'" "blocksAllOtherProviders (ps ! j)"
      "call_getSuggestions (ps ! j) c s = ReturnsPromise out"
      by (auto simp: fannedOut_def)
    with ne k' have "j < length ps" "blocksWith (ps ! j) c s"
      by (auto simp: blocksWith_def contribution_def)
    with none show False by blast
  qed
  then have bi: "blockingIndex (awaitAllSettled ts st) = None"
    using b0 by (simp add: awaitAllSettled_blocking minBlocking_def)
  have len: "length (providerResults st) = length ps"
    using fo by (simp add: fannedOut_def)
  have "providerResults (awaitAllSettled ts st) = map (\<lambda>p. Some (contribution p c s)) ps"
  proof (rule nth_equalityI)
    show "length (providerResults (awaitAllSettled ts st))
          = length (map (\<lambda>p. Some (contribution p c s)) ps)"
      using len by simp
  next
    fix j assume "j < length (providerResults (awaitAllSettled ts st))"
    then have j: "j < k'" using len kk by simp
    from settled_slot[OF fo k' j perm] j kk
    show "providerResults (awaitAllSettled ts st) ! j = map (\<lambda>p. Some (contribution p c s)) ps ! j"
      by simp
  qed
  with bi show ?thesis by simp
qed

text \<open>
  When no call of \<open>getSuggestions\<close> throws and no provider blocks, the query resolves with
  the merge of the contributions of all providers, in whatever order the promises settle. A
  provider whose promise rejects contributes the empty list: the \<open>.catch\<close> of its task
  contains the failure.
\<close>

theorem rejections_contained:
  assumes "c = providerContext popup context" and "s = popup_settings popup"
    and "\<forall>j<length (PROVIDERS popup). call_getSuggestions (PROVIDERS popup ! j) c s \<noteq> Throws"
    and "\<forall>j<length (PROVIDERS popup). \<not> blocksWith (PROVIDERS popup ! j) c s"
    and "\<forall>tasks. mset (settleOrder tasks) = mset tasks"
  shows "\<exists>start. popup_getSuggestions popup settleOrder context
           = Inr (mergeUpTo (SuggestionBlacklist_has popup) (length (PROVIDERS popup) - 1)
                    (map (\<lambda>provider. Some (contribution provider c s)) (PROVIDERS popup)), start)"
proof -
  let ?ps = "PROVIDERS popup"
  let ?st0 = "\<lparr>providerResults = replicate (length ?ps) None, pendingAsync = [],
              blockingIndex = None, contextStart = popup_contextStart popup\<rparr>"
  from fanOut_completes[OF assms(3)] obtain st where run: "fanOut ?ps c s 0 ?st0 = Inr st"
    by blast
  let ?ts = "settleOrder (pendingAsync st)"
  have perm: "set ?ts = set (pendingAsync st)"
    using assms(5) by (metis set_mset_mset)
  have empty: "pendingAsync st = [] \<Longrightarrow> ?ts = []"
    using assms(5) by (metis mset_zero_iff)
  have st1: "(if length (pendingAsync st) > 0 then awaitAllSettled ?ts st else st)
             = awaitAllSettled ?ts st"
    using empty by (auto simp: awaitAllSettled_def)
  from aggregate_no_blocker[OF assms(4) run perm]
  have bi: "blockingIndex (awaitAllSettled ?ts st) = None"
    and slots: "providerResults (awaitAllSettled ?ts st) = map (\<lambda>p. Some (contribution p c s)) ?ps"
    by simp_all
  show ?thesis
  proof (cases "?ps = []")
    case True
    then show ?thesis
      using run st1 bi slots
      by (simp add: popup_getSuggestions_def assms(1,2)[symmetric] Let_def lastIndex_def
            mergeUpTo_def del: length_greater_0_conv)
  next
    case False
    then have "\<not> int (length ?ps) - 1 < 0" "nat (int (length ?ps) - 1) = length ?ps - 1"
      by (simp_all add: Suc_leI)
    then show ?thesis
      using run st1 bi slots
      by (simp add: popup_getSuggestions_def assms(1,2)[symmetric] Let_def lastIndex_def
               del: length_greater_0_conv)
  qed
qed

theorem rejections_contained_example:
  "popup_getSuggestions (popupWith [rejecting, returning False [suggest ''alpha''],
                                    resolving False [suggest ''beta'', suggest ''alpha'']])
     rev (typed ''al'')
   = Inr (Some [suggest ''alpha'', suggest ''beta''], (0, 1))"
proof -
  let ?popup = "popupWith [rejecting, returning False [suggest ''alpha''],
                           resolving False [suggest ''beta'', suggest ''alpha'']]"
  let ?c = "providerContext ?popup (typed ''al'')"
  have s: "popup_settings ?popup = DEFAULT_SETTINGS" by (simp add: popupWith_def)
  have len: "length (PROVIDERS ?popup) = 3" by (simp add: popupWith_def)
  have lt: "\<And>P. (\<forall>j<3::nat. P j) = (P 0 \<and> P 1 \<and> P 2)"
    by (auto simp: less_Suc_eq numeral_3_eq_3 numeral_2_eq_2)
  have h3: "\<forall>j<length (PROVIDERS ?popup).
              call_getSuggestions (PROVIDERS ?popup ! j) ?c DEFAULT_SETTINGS \<noteq> Throws"
    unfolding len lt by (simp add: popupWith_def rejecting_def returning_def resolving_def)
  have h4: "\<forall>j<length (PROVIDERS ?popup). \<not> blocksWith (PROVIDERS ?popup ! j) ?c DEFAULT_SETTINGS"
    unfolding len lt
    by (simp add: popupWith_def rejecting_def returning_def resolving_def blocksWith_def)
  have h5: "\<forall>tasks::async_task list. mset (rev tasks) = mset tasks" by simp
  have m: "mergeUpTo (SuggestionBlacklist_has ?popup) (length (PROVIDERS ?popup) - 1)
             (map (\<lambda>provider. Some (contribution provider ?c DEFAULT_SETTINGS)) (PROVIDERS ?popup))
           = Some [suggest ''alpha'', suggest ''beta'']"
    by code_simp
  have st: "snd (case popup_getSuggestions ?popup rev (typed ''al'') of Inr r \<Rightarrow> r) = (0, 1)"
    by code_simp
  from rejections_contained[OF refl s[symmetric] h3 h4 h5] m st
  show ?thesis by auto
qed

subsection \<open>A provider that fails\<close>

lemma fanOut_throws:
  assumes "m < length ps" and "call_getSuggestions (ps ! m) c s = Throws"
    and "\<forall>j<m. call_getSuggestions (ps ! j) c s \<noteq> Throws \<and> \<not> isSyncBlocker ps c s j"
    and "blockingIndex st = None" and "k \<le> m"
  shows "fanOut ps c s k st = Inl (ProviderThrew m)"
  using assms
proof (induction ps c s k st rule: fanOut.induct)
  case (1 providers cx settings i st)
  have i: "i < length providers" using "1.prems"(1,5) by simp
  have nb: "\<not> beyondBlockingIndex (blockingIndex st) i"
    using "1.prems"(4) by (simp add: beyondBlockingIndex_def)
  show ?case
  proof (cases "i = m")
    case True
    then show ?thesis using i nb "1.prems"(2) by (subst fanOut.simps) simp
  next
    case False
    then have lt: "i < m" and le: "Suc i \<le> m" using "1.prems"(5) by simp_all
    show ?thesis
    proof (cases "call_getSuggestions (providers ! i) cx settings")
      case Throws
      with "1.prems"(3) lt show ?thesis by simp
    next
      case (ReturnsPromise out)
      let ?st = "st\<lparr>pendingAsync :=
                      pendingAsync st @ [(i, blocksAllOtherProviders (providers ! i), out)]\<rparr>"
      have b: "blockingIndex ?st = None" using "1.prems"(4) by simp
      from "1.IH"(2)[OF i nb ReturnsPromise "1.prems"(1,2,3) b le]
      show ?thesis using i nb ReturnsPromise by (subst fanOut.simps) simp
    next
      case (Returns r)
      let ?st1 = "st\<lparr>providerResults := (providerResults st)[i := Some (orEmpty r)]\<rparr>"
      have nsb: "\<not> (orEmpty r \<noteq> [] \<and> blocksAllOtherProviders (providers ! i))"
        using "1.prems"(3) lt Returns by (auto simp: isSyncBlocker_def)
      have b: "blockingIndex ?st1 = None" using "1.prems"(4) by simp
      from "1.IH"(1)[OF i nb Returns refl refl nsb "1.prems"(1,2,3) b le]
      show ?thesis using i nb Returns nsb by (subst fanOut.simps) (auto simp: Let_def)
    qed
  qed
qed

text \<open>
  Claim C5. The call \<open>provider.getSuggestions(...)\<close> of the fan-out loop stands outside any
  \<open>try\<close>. When a provider throws synchronously, and the loop reaches it (no provider
  before it throws, and none before it is a synchronous provider that blocks with a
  suggestion), the exception leaves \<open>getSuggestions\<close>: the promise of the query rejects,
  whatever the other providers return and in whatever order their promises settle. So the
  failure is not contained, and the suggestions of the other providers are lost. A provider
  whose promise rejects is contained by the \<open>.catch\<close> of its task.
\<close>

theorem sync_throw_rejects_aggregate:
  assumes "m < length (PROVIDERS popup)"
    and "c = providerContext popup context" and "s = popup_settings popup"
    and "call_getSuggestions (PROVIDERS popup ! m) c s = Throws"
    and "\<forall>j<m. call_getSuggestions (PROVIDERS popup ! j) c s \<noteq> Throws"
    and "\<forall>j<m. \<forall>r. call_getSuggestions (PROVIDERS popup ! j) c s = Returns r
           \<longrightarrow> blocksAllOtherProviders (PROVIDERS popup ! j) \<longrightarrow> orEmpty r = []"
  shows "popup_getSuggestions popup settleOrder context = Inl (ProviderThrew m)"
proof -
  have "\<forall>j<m. call_getSuggestions (PROVIDERS popup ! j) c s \<noteq> Throws
              \<and> \<not> isSyncBlocker (PROVIDERS popup) c s j"
    using assms(5,6) by (auto simp: isSyncBlocker_def)
  from fanOut_throws[OF assms(1,4) this, of _ 0]
  show ?thesis by (simp add: popup_getSuggestions_def assms(2,3)[symmetric])
qed

theorem sync_throw_rejects_aggregate_witness:
  "popup_getSuggestions (popupWith [throwing, returning False [suggest ''alpha'']]) id (typed ''al'')
     = Inl (ProviderThrew 0)
   \<and> popup_getSuggestions (popupWith [rejecting, returning False [suggest ''alpha'']]) id (typed ''al'')
     = Inr (Some [suggest ''alpha''], (0, 1))"
proof -
  let ?popup = "popupWith [throwing, returning False [suggest ''alpha'']]"
  have h1: "0 < length (PROVIDERS ?popup)" by (simp add: popupWith_def)
  have h4: "call_getSuggestions (PROVIDERS ?popup ! 0) (providerContext ?popup (typed ''al''))
              (popup_settings ?popup) = Throws"
    by (simp add: popupWith_def throwing_def)
  have "popup_getSuggestions ?popup id (typed ''al'') = Inl (ProviderThrew 0)"
    using sync_throw_rejects_aggregate[OF h1 refl refl h4] by simp
  moreover have "popup_getSuggestions (popupWith [rejecting, returning False [suggest ''alpha'']])
                   id (typed ''al'') = Inr (Some [suggest ''alpha''], (0, 1))"
    by code_simp
  ultimately show ?thesis by simp
qed

section \<open>Properties of the LLM provider\<close>

subsection \<open>Printing the temperature\<close>

lemma decimal_small: "n < 10 \<Longrightarrow> decimal n = [digit n]"
  by (subst decimal.simps) (simp only: if_True)

lemma decimal_large: "\<not> n < 10 \<Longrightarrow> decimal n = decimal (n div 10) @ [digit (n mod 10)]"
  by (subst decimal.simps) (simp only: if_False)

lemma unat_digit: "k < 10 \<Longrightarrow> unat (digit k) = 48 + k"
proof -
  assume "k < 10"
  then have "k \<in> {0,1,2,3,4,5,6,7,8,9}" by auto
  then show ?thesis by (auto simp: digit_def)
qed

lemma digit_not_point: "k < 10 \<Longrightarrow> digit k \<noteq> 0x2E"
proof
  assume k: "k < 10" and e: "digit k = 0x2E"
  have "unat (digit k) = 46" by (simp only: e) simp
  with unat_digit[OF k] show False by simp
qed

lemma decimal_digits: "c \<in> set (decimal n) \<Longrightarrow> \<exists>k<10. c = digit k"
proof (induction n arbitrary: c rule: decimal.induct)
  case (1 n)
  show ?case
  proof (cases "n < 10")
    case True
    with "1.prems" have "c = digit n" by (simp add: decimal_small)
    with True show ?thesis by blast
  next
    case False
    from "1.prems" have "c \<in> set (decimal (n div 10)) \<or> c = digit (n mod 10)"
      by (auto simp: decimal_large[OF False])
    then show ?thesis
    proof
      assume "c \<in> set (decimal (n div 10))"
      then show ?thesis by (rule "1.IH"[OF False])
    next
      assume "c = digit (n mod 10)"
      moreover have "n mod 10 < 10" by simp
      ultimately show ?thesis by blast
    qed
  qed
qed

lemma digitsValue_snoc: "digitsValue (s @ [c]) = 10 * digitsValue s + (unat c - 48)"
  by (simp add: digitsValue_def)

lemma digitsValue_decimal: "digitsValue (decimal n) = n"
proof (induction n rule: decimal.induct)
  case (1 n)
  show ?case
  proof (cases "n < 10")
    case True
    then show ?thesis by (simp add: decimal_small digitsValue_def unat_digit)
  next
    case False
    have "n mod 10 < 10" by simp
    then have "unat (digit (n mod 10)) - 48 = n mod 10" by (simp add: unat_digit)
    then show ?thesis
      using "1.IH"[OF False] by (simp add: decimal_large[OF False] digitsValue_snoc)
  qed
qed

lemma digitsValue_Cons_zero: "digitsValue (digit 0 # s) = digitsValue s"
  by (simp add: digitsValue_def unat_digit)

lemma digitsValue_zeros: "digitsValue (replicate k (digit 0) @ s) = digitsValue s"
  by (induction k) (simp_all add: digitsValue_Cons_zero)

subsection \<open>The parts of the request key\<close>

lemma clip_of_limited:
  "clipContext (readLimitedContext context limit) limit
   = drop (length (docBeforeCursor context) - limit) (docBeforeCursor context)"
  by (simp add: clipContext_def readLimitedContext_def)

lemma split_at_separator:
  assumes "x \<notin> set a" and "x \<notin> set a'" and "a @ x # r = a' @ x # r'"
  shows "a = a' \<and> r = r'"
  using assms
proof (induction a arbitrary: a')
  case Nil
  then show ?case by (cases a') auto
next
  case (Cons y ys)
  then show ?case by (cases a') auto
qed

lemma createCacheKey_inj:
  assumes "createCacheKey c1 s1 m1 t1 = createCacheKey c2 s2 m2 t2"
    and "0x241E \<notin> set c1" and "0x241E \<notin> set c2"
    and "0x241E \<notin> set (orEmptyString s1)" and "0x241E \<notin> set (orEmptyString s2)"
    and "0x241E \<notin> set (orEmptyString m1)" and "0x241E \<notin> set (orEmptyString m2)"
  shows "c1 = c2 \<and> orEmptyString s1 = orEmptyString s2 \<and> orEmptyString m1 = orEmptyString m2
         \<and> toFixed3 t1 = toFixed3 t2"
proof -
  let ?r1 = "orEmptyString s1 @ 0x241E # orEmptyString m1 @ 0x241E # toFixed3 t1"
  let ?r2 = "orEmptyString s2 @ 0x241E # orEmptyString m2 @ 0x241E # toFixed3 t2"
  have "c1 @ 0x241E # ?r1 = c2 @ 0x241E # ?r2"
    using assms(1) by (simp add: createCacheKey_def CACHE_SEPARATOR_def)
  from split_at_separator[OF assms(2,3) this] have c: "c1 = c2" and r: "?r1 = ?r2" by simp_all
  from split_at_separator[OF assms(4,5) r]
  have s: "orEmptyString s1 = orEmptyString s2"
    and r': "orEmptyString m1 @ 0x241E # toFixed3 t1 = orEmptyString m2 @ 0x241E # toFixed3 t2"
    by simp_all
  from split_at_separator[OF assms(6,7) r'] c s show ?thesis by simp
qed

lemma toFixed3_nonneg:
  "0 \<le> x \<Longrightarrow> toFixed3 x =
     (let m = replicate (4 - length (decimal (nat \<lfloor>x * 1000 + 1 / 2\<rfloor>))) (digit 0)
                @ decimal (nat \<lfloor>x * 1000 + 1 / 2\<rfloor>)
      in take (length m - 3) m @ 0x2E # drop (length m - 3) m)"
  by (simp add: toFixed3_def Let_def abs_of_nonneg str_def)

lemma toFixed3_digits:
  assumes "0 \<le> x"
  shows "digitsValue (filter (\<lambda>c. c \<noteq> 0x2E) (toFixed3 x)) = nat \<lfloor>x * 1000 + 1 / 2\<rfloor>"
proof -
  define n where "n = nat \<lfloor>x * 1000 + 1 / 2\<rfloor>"
  define m where "m = replicate (4 - length (decimal n)) (digit 0) @ decimal n"
  have nodot: "\<forall>c\<in>set m. c \<noteq> 0x2E"
  proof
    fix c assume "c \<in> set m"
    then have "c = digit 0 \<or> c \<in> set (decimal n)" by (auto simp: m_def)
    then show "c \<noteq> 0x2E" using decimal_digits[of c n] digit_not_point by auto
  qed
  have "toFixed3 x = take (length m - 3) m @ 0x2E # drop (length m - 3) m"
    using toFixed3_nonneg[OF assms] by (simp add: Let_def m_def n_def)
  then have "filter (\<lambda>c. c \<noteq> 0x2E) (toFixed3 x)
             = filter (\<lambda>c. c \<noteq> 0x2E) (take (length m - 3) m)
               @ filter (\<lambda>c. c \<noteq> 0x2E) (drop (length m - 3) m)"
    by simp
  also have "\<dots> = filter (\<lambda>c. c \<noteq> 0x2E) (take (length m - 3) m @ drop (length m - 3) m)"
    by (simp only: filter_append)
  also have "\<dots> = filter (\<lambda>c. c \<noteq> 0x2E) m" by (simp only: append_take_drop_id)
  also have "\<dots> = m" using nodot by (simp only: filter_id_conv)
  finally have "digitsValue (filter (\<lambda>c. c \<noteq> 0x2E) (toFixed3 x)) = digitsValue m" by simp
  also have "\<dots> = n" by (simp only: m_def digitsValue_zeros digitsValue_decimal)
  finally show ?thesis by (simp add: n_def)
qed

lemma toFixed3_eq_iff:
  assumes "0 \<le> x" and "0 \<le> y"
  shows "toFixed3 x = toFixed3 y \<longleftrightarrow> roundedTemperature x = roundedTemperature y"
proof
  assume "toFixed3 x = toFixed3 y"
  then have "nat \<lfloor>x * 1000 + 1 / 2\<rfloor> = nat \<lfloor>y * 1000 + 1 / 2\<rfloor>"
    using toFixed3_digits[OF assms(1)] toFixed3_digits[OF assms(2)] by simp
  moreover have "0 \<le> \<lfloor>x * 1000 + 1 / 2\<rfloor>" "0 \<le> \<lfloor>y * 1000 + 1 / 2\<rfloor>"
    using assms by simp_all
  ultimately show "roundedTemperature x = roundedTemperature y"
    unfolding roundedTemperature_def by linarith
next
  assume "roundedTemperature x = roundedTemperature y"
  then show "toFixed3 x = toFixed3 y"
    using toFixed3_nonneg[OF assms(1)] toFixed3_nonneg[OF assms(2)]
    by (simp add: roundedTemperature_def)
qed

lemma resolveTemperature_range: "0 \<le> resolveTemperature v \<and> resolveTemperature v \<le> 2"
proof (cases v)
  case None
  then show ?thesis
    by (simp add: resolveTemperature_def DEFAULT_CHAT_TEMPERATURE_def double_0_7_def)
next
  case (Some x)
  then show ?thesis
    by (cases x)
       (simp_all add: resolveTemperature_def DEFAULT_CHAT_TEMPERATURE_def double_0_7_def)
qed

text \<open>
  Claim C7, as the code has it. The request key is computed from the document text before
  the cursor, of which it keeps the last 6000 code units, the separator, the resolved model
  and the resolved temperature; it is these four parts joined with the sentinel U+241E, an
  absent separator or model as the empty string and the temperature as \<open>toFixed(3)\<close> prints
  it. When none of the first three parts contains the sentinel, two keys are equal exactly
  when the clipped texts, the separators, the models and the temperatures rounded to
  thousandths are equal.
\<close>

theorem request_key_components:
  assumes "0x241E \<notin> set c1" and "0x241E \<notin> set c2"
    and "0x241E \<notin> set (orEmptyString s1)" and "0x241E \<notin> set (orEmptyString s2)"
    and "0x241E \<notin> set (orEmptyString m1)" and "0x241E \<notin> set (orEmptyString m2)"
    and "t1 = resolveTemperature v1" and "t2 = resolveTemperature v2"
  shows "requestKey platform context settings
           = createCacheKey
               (drop (length (docBeforeCursor context) - 6000) (docBeforeCursor context))
               (separatorChar context) (resolveModel platform settings)
               (resolveTemperature (temperature settings))
         \<and> createCacheKey c1 s1 m1 t1
           = c1 @ CACHE_SEPARATOR @ orEmptyString s1 @ CACHE_SEPARATOR @ orEmptyString m1
               @ CACHE_SEPARATOR @ toFixed3 t1
         \<and> (createCacheKey c1 s1 m1 t1 = createCacheKey c2 s2 m2 t2
              \<longleftrightarrow> c1 = c2 \<and> orEmptyString s1 = orEmptyString s2
                  \<and> orEmptyString m1 = orEmptyString m2
                  \<and> roundedTemperature t1 = roundedTemperature t2)"
proof -
  have k: "requestKey platform context settings
           = createCacheKey
               (drop (length (docBeforeCursor context) - 6000) (docBeforeCursor context))
               (separatorChar context) (resolveModel platform settings)
               (resolveTemperature (temperature settings))"
    by (simp add: requestKey_def clip_of_limited CHAT_COMPLETION_CONTEXT_LIMIT_def)
  have j: "createCacheKey c1 s1 m1 t1
           = c1 @ CACHE_SEPARATOR @ orEmptyString s1 @ CACHE_SEPARATOR @ orEmptyString m1
               @ CACHE_SEPARATOR @ toFixed3 t1"
    by (simp add: createCacheKey_def)
  have t: "toFixed3 t1 = toFixed3 t2 \<longleftrightarrow> roundedTemperature t1 = roundedTemperature t2"
    using toFixed3_eq_iff[of t1 t2] resolveTemperature_range[of v1] resolveTemperature_range[of v2]
      assms(7,8) by simp
  have e: "createCacheKey c1 s1 m1 t1 = createCacheKey c2 s2 m2 t2
              \<longleftrightarrow> c1 = c2 \<and> orEmptyString s1 = orEmptyString s2
                  \<and> orEmptyString m1 = orEmptyString m2
                  \<and> roundedTemperature t1 = roundedTemperature t2"
  proof
    assume "createCacheKey c1 s1 m1 t1 = createCacheKey c2 s2 m2 t2"
    from createCacheKey_inj[OF this assms(1-6)] t
    show "c1 = c2 \<and> orEmptyString s1 = orEmptyString s2
                  \<and> orEmptyString m1 = orEmptyString m2
                  \<and> roundedTemperature t1 = roundedTemperature t2" by simp
  next
    assume "c1 = c2 \<and> orEmptyString s1 = orEmptyString s2
                  \<and> orEmptyString m1 = orEmptyString m2
                  \<and> roundedTemperature t1 = roundedTemperature t2"
    with t show "createCacheKey c1 s1 m1 t1 = createCacheKey c2 s2 m2 t2"
      by (simp add: createCacheKey_def)
  qed
  from k j e show ?thesis by blast
qed

theorem request_key_components_witness:
  "createCacheKey (str ''wor'') (Some (str '' '')) None (resolveTemperature (Some (Num (1 / 2))))
     = createCacheKey (str ''wor'') (Some (str '' '')) None
         (resolveTemperature (Some (Num (2049 / 4096))))
   \<and> roundedTemperature (1 / 2) = 500 \<and> roundedTemperature (2049 / 4096) = 500
   \<and> createCacheKey (str ''wor'') (Some (str '' '')) None (resolveTemperature (Some (Num 1)))
     \<noteq> createCacheKey (str ''wor'') (Some (str '' '')) (Some (str ''gpt-4''))
         (resolveTemperature (Some (Num 1)))"
proof -
  have h1: "0x241E \<notin> set (str ''wor'')" by code_simp
  have h3: "0x241E \<notin> set (orEmptyString (Some (str '' '')))" by code_simp
  have h5: "0x241E \<notin> set (orEmptyString None)" by code_simp
  have h6: "0x241E \<notin> set (orEmptyString (Some (str ''gpt-4'')))" by code_simp
  have r1: "roundedTemperature (resolveTemperature (Some (Num (1 / 2)))) = 500" by code_simp
  have r2: "roundedTemperature (resolveTemperature (Some (Num (2049 / 4096)))) = 500" by code_simp
  have r1': "roundedTemperature (1 / 2) = 500" by code_simp
  have r2': "roundedTemperature (2049 / 4096) = 500" by code_simp
  have m: "orEmptyString None \<noteq> orEmptyString (Some (str ''gpt-4''))" by code_simp
  note same = request_key_components[OF h1 h1 h3 h3 h5 h5 refl refl,
         where ?v1.0 = "Some (Num (1 / 2))" and ?v2.0 = "Some (Num (2049 / 4096))",
         THEN conjunct2, THEN conjunct2]
  note other = request_key_components[OF h1 h1 h3 h3 h5 h6 refl refl,
         where ?v1.0 = "Some (Num 1)" and ?v2.0 = "Some (Num 1)",
         THEN conjunct2, THEN conjunct2]
  from same r1 r2
  have a: "createCacheKey (str ''wor'') (Some (str '' '')) None
             (resolveTemperature (Some (Num (1 / 2))))
           = createCacheKey (str ''wor'') (Some (str '' '')) None
               (resolveTemperature (Some (Num (2049 / 4096))))"
    by simp
  from other m
  have b: "createCacheKey (str ''wor'') (Some (str '' '')) None (resolveTemperature (Some (Num 1)))
     \<noteq> createCacheKey (str ''wor'') (Some (str '' '')) (Some (str ''gpt-4''))
         (resolveTemperature (Some (Num 1)))"
    by simp
  from a b r1' r2' show ?thesis by simp
qed

text \<open>
  Claim C7, as stated, fails: two requests that differ in the resolved temperature only,
  \<open>0.5\<close> and \<open>0.500244140625\<close>, have the same key.
\<close>

theorem request_key_collision:
  "createCacheKey (str ''wor'') (Some (str '' '')) (Some (str ''gpt-4''))
       (resolveTemperature (Some (Num (1 / 2))))
   = createCacheKey (str ''wor'') (Some (str '' '')) (Some (str ''gpt-4''))
       (resolveTemperature (Some (Num (2049 / 4096))))
   \<and> resolveTemperature (Some (Num (1 / 2))) \<noteq> resolveTemperature (Some (Num (2049 / 4096)))"
  by code_simp

text \<open>
  The sentinel does not separate when a part contains it, and the key of the earlier
  revision has the text and the separator only.
\<close>

lemma earlier_key_ignores_model:
  "createCacheKey (str ''a'' @ CACHE_SEPARATOR) None None 1
   = createCacheKey (str ''a'') (Some CACHE_SEPARATOR) None 1
   \<and> createCacheKey_earlier (str ''wor'') (Some (str '' ''))
     = str ''wor'' @ CACHE_SEPARATOR @ str '' ''"
  by code_simp

subsection \<open>The response never rejects\<close>

lemma fetchSuggestions_resolves: "\<exists>xs. fetchSuggestions platform outcome = Inr xs"
  by (simp add: fetchSuggestions_def split: sum.splits)

lemma fetchSuggestions_rejected_request: "fetchSuggestions platform RequestRejects = Inr []"
  by (simp add: fetchSuggestions_def fetchSuggestions_try_def)

lemma fetchSuggestions_bad_status:
  "status response < 200 \<or> 300 \<le> status response \<Longrightarrow>
   fetchSuggestions platform (RequestResolves response) = Inr []"
  by (auto simp: fetchSuggestions_def fetchSuggestions_try_def split: sum.splits)

lemma extractWords_null: "extractWords JNull = []"
  by (simp add: extractWords_def)

lemma extractOpenAIWords_null: "extractOpenAIWords platform JNull = []"
  by (simp add: extractOpenAIWords_def)

lemma fetchSuggestions_null_payload:
  "resolvePayload platform response = Inr JNull \<Longrightarrow>
   fetchSuggestions platform (RequestResolves response) = Inr []"
  by (simp add: fetchSuggestions_def fetchSuggestions_try_def extractWords_null
        extractOpenAIWords_null)

lemma fetchSuggestions_throwing_json:
  "response_json response = Throwing \<Longrightarrow>
   fetchSuggestions platform (RequestResolves response) = Inr []"
  by (simp add: fetchSuggestions_def fetchSuggestions_try_def resolvePayload_def
        resolvePossiblePromise_def)

lemma fetchSuggestions_unparsable_text:
  assumes "response_json response = Absent \<or> response_json response = Rejecting"
    and "response_text response = Present (JString t)" and "JSON_parse platform t = None"
  shows "fetchSuggestions platform (RequestResolves response) = Inr []"
proof -
  have "resolvePayload platform response = Inr JNull"
    using assms
    by (auto simp: resolvePayload_def payloadFromText_def resolvePossiblePromise_def
          safeParseJson_def)
  then show ?thesis by (rule fetchSuggestions_null_payload)
qed

lemma executeRequest_finally_settled: "settled (executeRequest_finally key st) = settled st"
  by (simp add: executeRequest_finally_def processPending_def executeRequest_def
        split: option.splits)

lemma requestSettled_skip:
  "\<not> (n < length (network st) \<and> n \<notin> fst ` set (settled st)) \<Longrightarrow>
   requestSettled platform n outcome st = st"
proof -
  assume "\<not> (n < length (network st) \<and> n \<notin> fst ` set (settled st))"
  then have c: "(n < length (network st) \<and> n \<notin> fst ` set (settled st)) = False" by simp
  show ?thesis unfolding requestSettled_def by (simp only: c if_False)
qed

lemma requestSettled_run:
  assumes "n < length (network st)" and "n \<notin> fst ` set (settled st)"
    and "network st ! n = (param, key, args)"
    and "fetchSuggestions platform outcome = Inr xs"
  shows "requestSettled platform n outcome st =
     executeRequest_finally key
       (if inflightKey st = Some key then
          st\<lparr>settled := settled st @ [(n, Inr xs)], cacheKey := Some key,
             cacheValue := Some \<lparr>suggestions = xs,
                 cached_request = clonePreparedRequest (args_request args) (source (args_request args))\<rparr>,
             requestCache := storePreparedRequest key
                 (clonePreparedRequest (args_request args) (source (args_request args)))
                 (requestCache st)\<rparr>
        else st\<lparr>settled := settled st @ [(n, Inr xs)]\<rparr>)"
proof -
  have c: "(n < length (network st) \<and> n \<notin> fst ` set (settled st)) = True"
    using assms(1,2) by simp
  show ?thesis
    unfolding requestSettled_def
    by (simp only: c if_True assms(3,4) prod.case Let_def sum.case) simp
qed

lemma requestSettled_settled:
  "settled (requestSettled platform n outcome st) = settled st
   \<or> (\<exists>xs. settled (requestSettled platform n outcome st) = settled st @ [(n, Inr xs)])"
proof (cases "n < length (network st) \<and> n \<notin> fst ` set (settled st)")
  case False
  then show ?thesis using requestSettled_skip[of n st platform outcome] by simp
next
  case True
  obtain param key args where nth: "network st ! n = (param, key, args)"
    by (cases "network st ! n") auto
  obtain xs where r: "fetchSuggestions platform outcome = Inr xs"
    using fetchSuggestions_resolves by blast
  have "settled (requestSettled platform n outcome st) = settled st @ [(n, Inr xs)]"
    using True by (simp add: requestSettled_run[OF _ _ nth r] executeRequest_finally_settled)
  then show ?thesis by blast
qed

lemma llm_getSuggestions_settled:
  "settled (snd (llm_getSuggestions platform st context settings)) = settled st"
  by (simp add: llm_getSuggestions_def Let_def executeRequest_def split: option.splits)


text \<open>
  Claim C6. The promise of \<open>fetchSuggestions\<close> always resolves, whatever \<open>requestUrl\<close> and the
  response do. It resolves with the empty list when the request fails, when the status is
  outside 200 to 299, when reading \<open>response.json\<close> throws and when the text of the response
  does not parse. \<open>getSuggestions\<close> settles no promise itself, and a request that comes back
  settles its promise with a list: no promise that \<open>getSuggestions\<close> hands out rejects. A
  response with status 500 gives the empty list.
\<close>

theorem never_rejects:
  "(\<exists>xs. fetchSuggestions platform outcome = Inr xs)
   \<and> fetchSuggestions platform RequestRejects = Inr []
   \<and> (status response < 200 \<or> 300 \<le> status response
        \<longrightarrow> fetchSuggestions platform (RequestResolves response) = Inr [])
   \<and> (response_json response = Throwing
        \<longrightarrow> fetchSuggestions platform (RequestResolves response) = Inr [])
   \<and> ((response_json response = Absent \<or> response_json response = Rejecting)
        \<and> response_text response = Present (JString t) \<and> JSON_parse platform t = None
        \<longrightarrow> fetchSuggestions platform (RequestResolves response) = Inr [])
   \<and> settled (snd (llm_getSuggestions platform st context settings)) = settled st
   \<and> (settled (requestSettled platform n outcome st) = settled st
        \<or> (\<exists>xs. settled (requestSettled platform n outcome st) = settled st @ [(n, Inr xs)]))
   \<and> fetchSuggestions platform http500 = Inr []"
proof -
  have "fetchSuggestions platform http500 = Inr []"
    unfolding http500_def by (rule fetchSuggestions_bad_status) simp
  then show ?thesis
    using fetchSuggestions_resolves[of platform outcome] fetchSuggestions_rejected_request
      fetchSuggestions_bad_status[of response platform]
      fetchSuggestions_throwing_json[of response platform]
      fetchSuggestions_unparsable_text[of response t platform]
      llm_getSuggestions_settled[of platform st "context" settings]
      requestSettled_settled[of platform n outcome st]
    by blast
qed

theorem never_rejects_witness:
  "status \<lparr>status = 500, response_json = Throwing,
            response_text = Present (JString (str ''Internal Server Error''))\<rparr> = 500
   \<and> fetchSuggestions ascii_platform http500 = Inr []
   \<and> delivered (requestSettled ascii_platform 0 http500 (snd typedA)) (fst typedA) = Some (Inr [])"
proof -
  let ?r = "\<lparr>status = 500, response_json = Throwing,
            response_text = Present (JString (str ''Internal Server Error''))\<rparr>"
  have e: "delivered (requestSettled ascii_platform 0 http500 (snd typedA)) (fst typedA)
           = Some (Inr [])"
    by code_simp
  from never_rejects[of ascii_platform http500 ?r "str ''Internal Server Error''" LLM
         "cursorAfter ''a''" DEFAULT_SETTINGS 0]
  have "fetchSuggestions ascii_platform http500 = Inr []" by blast
  with e show ?thesis by simp
qed

subsection \<open>Steps of the provider\<close>

lemma createCacheKey_nonempty: "createCacheKey c s m t \<noteq> []"
  by (simp add: createCacheKey_def CACHE_SEPARATOR_def)

lemma requestKey_nonempty: "requestKey platform context settings \<noteq> []"
  by (simp add: requestKey_def createCacheKey_nonempty)

lemma llm_getSuggestions_dispatch:
  assumes "llm_isEnabled (getLLMProviderSettings settings)"
    and "key = requestKey platform context (getLLMProviderSettings settings)"
    and "cacheKey st \<noteq> Some key \<or> cacheValue st = None"
    and "inflightPromise st = None"
  shows "\<exists>args. llm_getSuggestions platform st context settings = executeRequest key args st"
  using assms
  by (auto simp: llm_getSuggestions_def Let_def requestKey_def)

lemma llm_getSuggestions_coalesce:
  assumes "llm_isEnabled (getLLMProviderSettings settings)"
    and "key = requestKey platform context (getLLMProviderSettings settings)"
    and "cacheKey st \<noteq> Some key \<or> cacheValue st = None"
    and "inflightPromise st = Some promise" and "inflightKey st = Some key"
  shows "llm_getSuggestions platform st context settings = (Awaits promise, st)"
  using assms
  by (auto simp: llm_getSuggestions_def Let_def requestKey_def)

lemma llm_getSuggestions_park:
  assumes "llm_isEnabled (getLLMProviderSettings settings)"
    and "key = requestKey platform context (getLLMProviderSettings settings)"
    and "cacheKey st \<noteq> Some key \<or> cacheValue st = None"
    and "inflightPromise st = Some promise" and "inflightKey st \<noteq> Some key"
  shows "\<exists>args. llm_getSuggestions platform st context settings
           = (Resolved [], st\<lparr>pendingKey := Some key, pendingArgs := Some args\<rparr>)"
  using assms
  by (auto simp: llm_getSuggestions_def Let_def requestKey_def)

lemma processPending_dispatch:
  assumes "inflightPromise st = None" and "pendingKey st = Some key" and "key \<noteq> []"
    and "pendingArgs st = Some args"
  shows "processPending st
         = st\<lparr>pendingKey := None, pendingArgs := None,
              network := network st @ [(requestUrlParam args, key, args)],
              inflightKey := Some key, inflightPromise := Some (length (network st))\<rparr>"
  using assms by (simp add: processPending_def falsyKey_def executeRequest_def)

lemma processPending_idle:
  assumes "pendingKey st = None"
  shows "processPending st = st"
  using assms by (simp add: processPending_def falsyKey_def)

lemma requestSettled_inflight:
  assumes "n < length (network st)" and "n \<notin> fst ` set (settled st)"
    and "network st ! n = (param, key, args)" and "inflightKey st = Some key"
  shows "\<exists>xs request.
     requestSettled platform n outcome st =
       processPending
         (st\<lparr>settled := settled st @ [(n, Inr xs)], cacheKey := Some key,
             cacheValue := Some \<lparr>suggestions = xs, cached_request = request\<rparr>,
             requestCache := storePreparedRequest key request (requestCache st),
             inflightKey := None, inflightPromise := None\<rparr>)"
proof -
  obtain xs where r: "fetchSuggestions platform outcome = Inr xs"
    using fetchSuggestions_resolves by blast
  show ?thesis
    using assms(4)
    by (intro exI[of _ xs] exI[of _ "clonePreparedRequest (args_request args) (source (args_request args))"])
       (simp add: requestSettled_run[OF assms(1,2,3) r] executeRequest_finally_def)
qed

subsection \<open>Coalescing\<close>

text \<open>
  Claim C3. On a provider with no request in flight and nothing parked, let a first call miss
  the response cache, and let a second call with the same request key follow before the
  request of the first has come back. Then one network call is made, for that key; both
  calls return the promise of that one request, which is the provider's in-flight promise
  and is unsettled; and when the request comes back, both callers receive the same list.
\<close>

theorem coalesced_request:
  assumes enabled1: "llm_isEnabled (getLLMProviderSettings settings1)"
    and enabled2: "llm_isEnabled (getLLMProviderSettings settings2)"
    and key1: "key = requestKey platform context1 (getLLMProviderSettings settings1)"
    and key2: "key = requestKey platform context2 (getLLMProviderSettings settings2)"
    and miss: "cacheKey st \<noteq> Some key \<or> cacheValue st = None"
    and idle: "inflightPromise st = None" and nothingParked: "pendingKey st = None"
    and fresh: "length (network st) \<notin> fst ` set (settled st)"
    and first: "first = llm_getSuggestions platform st context1 settings1"
    and second: "second = llm_getSuggestions platform (snd first) context2 settings2"
    and after: "after = requestSettled platform (length (network st)) outcome (snd second)"
  shows "sentKeys (snd second) = sentKeys st @ [key]
         \<and> fst first = Awaits (length (network st))
         \<and> fst second = Awaits (length (network st))
         \<and> inflightPromise (snd first) = Some (length (network st))
         \<and> delivered (snd second) (fst first) = None
         \<and> sentKeys after = sentKeys st @ [key]
         \<and> (\<exists>xs. delivered after (fst first) = Some (Inr xs)
                \<and> delivered after (fst second) = Some (Inr xs))"
proof -
  let ?n = "length (network st)"
  from llm_getSuggestions_dispatch[OF enabled1 key1 miss idle]
  obtain args where f: "first = executeRequest key args st" using first by auto
  let ?st1 = "st\<lparr>network := network st @ [(requestUrlParam args, key, args)],
                 inflightKey := Some key, inflightPromise := Some ?n\<rparr>"
  have f1: "fst first = Awaits ?n" and s1: "snd first = ?st1"
    using f by (simp_all add: executeRequest_def)
  have miss1: "cacheKey ?st1 \<noteq> Some key \<or> cacheValue ?st1 = None" using miss by simp
  have "second = (Awaits ?n, ?st1)"
    using llm_getSuggestions_coalesce[OF enabled2 key2 miss1, of ?n] second s1 by simp
  then have f2: "fst second = Awaits ?n" and s2: "snd second = ?st1" by simp_all
  have unsettled: "map_of (settled st) ?n = None"
    using fresh by (simp add: map_of_eq_None_iff)
  have nth: "network ?st1 ! ?n = (requestUrlParam args, key, args)" by simp
  from requestSettled_inflight[of ?n ?st1 "requestUrlParam args" key args platform outcome] fresh
  obtain xs request where
    a: "after = processPending
         (?st1\<lparr>settled := settled ?st1 @ [(?n, Inr xs)], cacheKey := Some key,
             cacheValue := Some \<lparr>suggestions = xs, cached_request = request\<rparr>,
             requestCache := storePreparedRequest key request (requestCache ?st1),
             inflightKey := None, inflightPromise := None\<rparr>)"
    using after s2 by auto
  have net: "sentKeys after = sentKeys st @ [key]"
    and sett: "settled after = settled st @ [(?n, Inr xs)]"
    unfolding a using nothingParked
    by (simp_all add: processPending_idle sentKeys_def)
  have del: "delivered after (Awaits ?n) = Some (Inr xs)"
    using sett unsettled by (simp add: delivered_def map_of_append map_add_def)
  have und: "delivered ?st1 (Awaits ?n) = None"
    using unsettled by (simp add: delivered_def)
  have sk: "sentKeys ?st1 = sentKeys st @ [key]" by (simp add: sentKeys_def)
  show ?thesis
    using f1 f2 s1 s2 net del und sk by simp
qed

theorem coalesced_request_witness:
  "llm_isEnabled (getLLMProviderSettings DEFAULT_SETTINGS)
   \<and> fst typedA = Awaits 0
   \<and> fst (llm_getSuggestions ascii_platform (snd typedA) (cursorAfter ''a'') DEFAULT_SETTINGS)
       = Awaits 0
   \<and> sentKeys (snd (llm_getSuggestions ascii_platform (snd typedA) (cursorAfter ''a'')
                       DEFAULT_SETTINGS)) = [keyOf ''a'']
   \<and> delivered (requestSettled ascii_platform 0 (http200 [''abacus''])
                  (snd (llm_getSuggestions ascii_platform (snd typedA) (cursorAfter ''a'')
                          DEFAULT_SETTINGS)))
        (Awaits 0) = Some (Inr [suggest ''abacus''])"
proof -
  have en: "llm_isEnabled (getLLMProviderSettings DEFAULT_SETTINGS)" by code_simp
  have miss: "cacheKey LLM \<noteq> Some (keyOf ''a'') \<or> cacheValue LLM = None" by (simp add: LLM_def)
  have idle: "inflightPromise LLM = None" and np: "pendingKey LLM = None" by (simp_all add: LLM_def)
  have fresh: "length (network LLM) \<notin> fst ` set (settled LLM)" by (simp add: LLM_def)
  have n0: "length (network LLM) = 0" by (simp add: LLM_def)
  have s0: "sentKeys LLM = []" by (simp add: LLM_def sentKeys_def)
  have v: "delivered (requestSettled ascii_platform 0 (http200 [''abacus''])
                  (snd (llm_getSuggestions ascii_platform (snd typedA) (cursorAfter ''a'')
                          DEFAULT_SETTINGS)))
        (Awaits 0) = Some (Inr [suggest ''abacus''])"
    by code_simp
  note inst = coalesced_request[OF en en keyOf_def keyOf_def miss idle np fresh typedA_def refl refl,
      of "http200 [''abacus'']"]
  from inst en v show ?thesis by (simp add: n0 s0)
qed

subsection \<open>Coalescing in llm\_provider.ts\<close>

text \<open>
  The revision in llm\_provider.ts coalesces in the same way: a second call with the key of
  the request in flight returns \<open>this.inflightPromise\<close> and sends nothing.
\<close>

lemma coalesced_request_earlier:
  assumes enabled1: "llm_isEnabled (getLLMProviderSettings settings1)"
    and enabled2: "llm_isEnabled (getLLMProviderSettings settings2)"
    and key1: "key = requestKey_earlier context1"
    and key2: "key = requestKey_earlier context2"
    and miss: "earlier_cacheKey st \<noteq> Some key"
    and idle: "earlier_inflightPromise st = None"
    and fresh: "length (earlier_network st) \<notin> fst ` set (earlier_settled st)"
    and first: "first = getSuggestions_earlier platform st context1 settings1"
    and second: "second = getSuggestions_earlier platform (snd first) context2 settings2"
    and after: "after = requestSettled_earlier platform (length (earlier_network st)) outcome (snd second)"
  shows "map snd (earlier_network (snd second)) = map snd (earlier_network st) @ [key]
         \<and> fst first = Awaits (length (earlier_network st))
         \<and> fst second = Awaits (length (earlier_network st))
         \<and> earlier_inflightPromise (snd first) = Some (length (earlier_network st))
         \<and> delivered_earlier (snd second) (fst first) = None
         \<and> map snd (earlier_network after) = map snd (earlier_network st) @ [key]
         \<and> (\<exists>xs. delivered_earlier after (fst first) = Some (Inr xs)
                \<and> delivered_earlier after (fst second) = Some (Inr xs))"
proof -
  let ?n = "length (earlier_network st)"
  obtain param where
    f: "first = (Awaits ?n, st\<lparr>earlier_network := earlier_network st @ [(param, key)],
                   earlier_inflightKey := Some key, earlier_inflightPromise := Some ?n\<rparr>)"
    using first enabled1 key1 miss idle
    by (simp add: getSuggestions_earlier_def Let_def requestKey_earlier_def)
  let ?st1 = "st\<lparr>earlier_network := earlier_network st @ [(param, key)],
                   earlier_inflightKey := Some key, earlier_inflightPromise := Some ?n\<rparr>"
  have s: "second = (Awaits ?n, ?st1)"
    using second f enabled2 key2 miss
    by (simp add: getSuggestions_earlier_def Let_def requestKey_earlier_def)
  have unsettled: "map_of (earlier_settled st) ?n = None"
    using fresh by (simp add: map_of_eq_None_iff)
  obtain xs where xs: "fetchSuggestions platform outcome = Inr xs"
    using fetchSuggestions_resolves by blast
  have a: "after = ?st1\<lparr>earlier_settled := earlier_settled st @ [(?n, Inr xs)],
                      earlier_cacheKey := Some key, earlier_cacheValue := xs,
                      earlier_inflightKey := None, earlier_inflightPromise := None\<rparr>"
    using after s fresh xs by (simp add: requestSettled_earlier_def Let_def)
  have "delivered_earlier after (Awaits ?n) = Some (Inr xs)"
    using a unsettled by (simp add: delivered_earlier_def map_of_append map_add_def)
  moreover have "delivered_earlier ?st1 (Awaits ?n) = None"
    using unsettled by (simp add: delivered_earlier_def)
  ultimately show ?thesis using f s a by simp
qed

lemma coalesced_request_earlier_example:
  "fst (getSuggestions_earlier ascii_platform LLM_earlier (cursorAfter ''a'') DEFAULT_SETTINGS)
     = Awaits 0
   \<and> fst (getSuggestions_earlier ascii_platform
            (snd (getSuggestions_earlier ascii_platform LLM_earlier (cursorAfter ''a'')
                    DEFAULT_SETTINGS))
            (cursorAfter ''a'') DEFAULT_SETTINGS) = Awaits 0
   \<and> length (earlier_network (snd (getSuggestions_earlier ascii_platform
            (snd (getSuggestions_earlier ascii_platform LLM_earlier (cursorAfter ''a'')
                    DEFAULT_SETTINGS))
            (cursorAfter ''a'') DEFAULT_SETTINGS))) = 1"
  by code_simp

subsection \<open>The pending slot\<close>

text \<open>
  Claim C2. On a provider with no request in flight, let three calls follow one another with
  the keys \<open>A\<close>, \<open>B\<close> and \<open>C\<close>, \<open>B\<close> and \<open>C\<close> different from \<open>A\<close>, none a hit of the
  response cache. The call for \<open>A\<close> sends its request. The calls for \<open>B\<close> and \<open>C\<close> return
  the empty list and send nothing: \<open>B\<close> is parked in the pending slot and \<open>C\<close> overwrites
  it. When the request for \<open>A\<close> comes back, the request for \<open>C\<close> is sent; when that one
  comes back, nothing is in flight and nothing is parked. Two network calls were made, for
  \<open>A\<close> and for \<open>C\<close>, and none for \<open>B\<close>.
\<close>

theorem pending_slot_overwrite:
  assumes enabledA: "llm_isEnabled (getLLMProviderSettings settingsA)"
    and enabledB: "llm_isEnabled (getLLMProviderSettings settingsB)"
    and enabledC: "llm_isEnabled (getLLMProviderSettings settingsC)"
    and keyA: "A = requestKey platform contextA (getLLMProviderSettings settingsA)"
    and keyB: "B = requestKey platform contextB (getLLMProviderSettings settingsB)"
    and keyC: "C = requestKey platform contextC (getLLMProviderSettings settingsC)"
    and distinct: "B \<noteq> A" "C \<noteq> A"
    and miss: "cacheKey st \<notin> {Some A, Some B, Some C} \<or> cacheValue st = None"
    and idle: "inflightPromise st = None"
    and fresh: "\<forall>n\<in>fst ` set (settled st). n < length (network st)"
    and callA: "callA = llm_getSuggestions platform st contextA settingsA"
    and callB: "callB = llm_getSuggestions platform (snd callA) contextB settingsB"
    and callC: "callC = llm_getSuggestions platform (snd callB) contextC settingsC"
    and afterA: "afterA = requestSettled platform (length (network st)) outcomeA (snd callC)"
    and afterC: "afterC = requestSettled platform (Suc (length (network st))) outcomeC afterA"
  shows "fst callA = Awaits (length (network st))
         \<and> fst callB = Resolved [] \<and> fst callC = Resolved []
         \<and> pendingKey (snd callB) = Some B \<and> pendingKey (snd callC) = Some C
         \<and> sentKeys (snd callC) = sentKeys st @ [A]
         \<and> sentKeys afterA = sentKeys st @ [A, C]
         \<and> sentKeys afterC = sentKeys st @ [A, C]
         \<and> inflightPromise afterC = None \<and> pendingKey afterC = None"
proof -
  let ?n = "length (network st)"
  have missA: "cacheKey st \<noteq> Some A \<or> cacheValue st = None" using miss by auto
  from llm_getSuggestions_dispatch[OF enabledA keyA missA idle]
  obtain argsA where a: "callA = executeRequest A argsA st" using callA by auto
  define st1 where "st1 = st\<lparr>network := network st @ [(requestUrlParam argsA, A, argsA)],
                 inflightKey := Some A, inflightPromise := Some ?n\<rparr>"
  have fA: "fst callA = Awaits ?n" and sA: "snd callA = st1"
    using a by (simp_all add: executeRequest_def st1_def)
  \<comment> \<open>the call with key B is parked\<close>
  have missB: "cacheKey st1 \<noteq> Some B \<or> cacheValue st1 = None" using miss by (auto simp: st1_def)
  have "inflightPromise st1 = Some ?n" "inflightKey st1 \<noteq> Some B"
    using distinct by (simp_all add: st1_def)
  from llm_getSuggestions_park[OF enabledB keyB missB this]
  obtain argsB where b: "callB = (Resolved [], st1\<lparr>pendingKey := Some B, pendingArgs := Some argsB\<rparr>)"
    using callB sA by auto
  define st2 where "st2 = st1\<lparr>pendingKey := Some B, pendingArgs := Some argsB\<rparr>"
  have fB: "fst callB = Resolved []" and sB: "snd callB = st2" using b by (simp_all add: st2_def)
  \<comment> \<open>the call with key C takes the slot\<close>
  have missC: "cacheKey st2 \<noteq> Some C \<or> cacheValue st2 = None"
    using miss by (auto simp: st1_def st2_def)
  have "inflightPromise st2 = Some ?n" "inflightKey st2 \<noteq> Some C"
    using distinct by (simp_all add: st1_def st2_def)
  from llm_getSuggestions_park[OF enabledC keyC missC this]
  obtain argsC where c: "callC = (Resolved [], st2\<lparr>pendingKey := Some C, pendingArgs := Some argsC\<rparr>)"
    using callC sB by auto
  define st3 where "st3 = st2\<lparr>pendingKey := Some C, pendingArgs := Some argsC\<rparr>"
  have fC: "fst callC = Resolved []" and sC: "snd callC = st3" using c by (simp_all add: st3_def)
  have net3: "network st3 = network st @ [(requestUrlParam argsA, A, argsA)]"
    by (simp add: st3_def st2_def st1_def)
  have set3: "settled st3 = settled st" by (simp add: st3_def st2_def st1_def)
  \<comment> \<open>the request for A settles and the request for C is sent\<close>
  have n_new: "?n \<notin> fst ` set (settled st)" and n1_new: "Suc ?n \<notin> fst ` set (settled st)"
    using fresh by auto
  have "?n < length (network st3)" "?n \<notin> fst ` set (settled st3)"
    "network st3 ! ?n = (requestUrlParam argsA, A, argsA)" "inflightKey st3 = Some A"
    using n_new by (simp_all add: net3 set3) (simp add: st3_def st2_def st1_def)
  from requestSettled_inflight[OF this, of platform outcomeA]
  obtain xs request where
    sa: "afterA = processPending
         (st3\<lparr>settled := settled st3 @ [(?n, Inr xs)], cacheKey := Some A,
             cacheValue := Some \<lparr>suggestions = xs, cached_request = request\<rparr>,
             requestCache := storePreparedRequest A request (requestCache st3),
             inflightKey := None, inflightPromise := None\<rparr>)"
    using afterA sC by auto
  define st4 where "st4 = st3\<lparr>settled := settled st3 @ [(?n, Inr xs)], cacheKey := Some A,
             cacheValue := Some \<lparr>suggestions = xs, cached_request = request\<rparr>,
             requestCache := storePreparedRequest A request (requestCache st3),
             inflightKey := None, inflightPromise := None\<rparr>"
  have Cne: "C \<noteq> []" using keyC requestKey_nonempty by simp
  have "inflightPromise st4 = None" "pendingKey st4 = Some C" "pendingArgs st4 = Some argsC"
    by (simp_all add: st4_def st3_def)
  from processPending_dispatch[OF this(1,2) Cne this(3)]
  have pa: "afterA = st4\<lparr>pendingKey := None, pendingArgs := None,
              network := network st4 @ [(requestUrlParam argsC, C, argsC)],
              inflightKey := Some C, inflightPromise := Some (length (network st4))\<rparr>"
    using sa by (simp add: st4_def)
  have net4: "network afterA
              = network st @ [(requestUrlParam argsA, A, argsA), (requestUrlParam argsC, C, argsC)]"
    by (simp add: pa st4_def net3)
  have set4: "settled afterA = settled st @ [(?n, Inr xs)]"
    by (simp add: pa st4_def set3)
  \<comment> \<open>the request for C settles and nothing is left\<close>
  have "Suc ?n < length (network afterA)" "Suc ?n \<notin> fst ` set (settled afterA)"
    "network afterA ! Suc ?n = (requestUrlParam argsC, C, argsC)" "inflightKey afterA = Some C"
    using n1_new by (simp_all add: net4 set4 nth_append) (simp add: pa)
  from requestSettled_inflight[OF this, of platform outcomeC]
  obtain ys request' where
    sc: "afterC = processPending
         (afterA\<lparr>settled := settled afterA @ [(Suc ?n, Inr ys)], cacheKey := Some C,
             cacheValue := Some \<lparr>suggestions = ys, cached_request = request'\<rparr>,
             requestCache := storePreparedRequest C request' (requestCache afterA),
             inflightKey := None, inflightPromise := None\<rparr>)"
    using afterC by auto
  have pk: "pendingKey afterA = None" by (simp add: pa)
  have pc: "afterC = afterA\<lparr>settled := settled afterA @ [(Suc ?n, Inr ys)], cacheKey := Some C,
             cacheValue := Some \<lparr>suggestions = ys, cached_request = request'\<rparr>,
             requestCache := storePreparedRequest C request' (requestCache afterA),
             inflightKey := None, inflightPromise := None\<rparr>"
    unfolding sc using pk by (simp add: processPending_idle)
  have r1: "pendingKey (snd callB) = Some B" by (simp add: sB st2_def)
  have r2: "pendingKey (snd callC) = Some C" by (simp add: sC st3_def)
  have r3: "sentKeys (snd callC) = sentKeys st @ [A]" by (simp add: sC sentKeys_def net3)
  have r4: "sentKeys afterA = sentKeys st @ [A, C]" by (simp add: sentKeys_def net4)
  have r5: "sentKeys afterC = sentKeys st @ [A, C]" by (simp add: pc sentKeys_def net4)
  have r6: "inflightPromise afterC = None" "pendingKey afterC = None"
    by (simp_all add: pc pk)
  from fA fB fC r1 r2 r3 r4 r5 r6 show ?thesis by simp
qed

theorem pending_slot_overwrite_witness:
  "llm_isEnabled (getLLMProviderSettings DEFAULT_SETTINGS)
   \<and> keyOf ''ab'' \<noteq> keyOf ''a'' \<and> keyOf ''abc'' \<noteq> keyOf ''a''
   \<and> fst typedA = Awaits 0 \<and> fst typedB = Resolved [] \<and> fst typedC = Resolved []
   \<and> sentKeys (snd typedC) = [keyOf ''a'']
   \<and> sentKeys (requestSettled ascii_platform 1 http500
                 (requestSettled ascii_platform 0 (http200 [''abacus'']) (snd typedC)))
       = [keyOf ''a'', keyOf ''abc'']"
proof -
  have en: "llm_isEnabled (getLLMProviderSettings DEFAULT_SETTINGS)" by code_simp
  have d1: "keyOf ''ab'' \<noteq> keyOf ''a''" by code_simp
  have d2: "keyOf ''abc'' \<noteq> keyOf ''a''" by code_simp
  have miss: "cacheKey LLM \<notin> {Some (keyOf ''a''), Some (keyOf ''ab''), Some (keyOf ''abc'')}
              \<or> cacheValue LLM = None"
    by (simp add: LLM_def)
  have idle: "inflightPromise LLM = None" by (simp add: LLM_def)
  have fresh: "\<forall>n\<in>fst ` set (settled LLM). n < length (network LLM)" by (simp add: LLM_def)
  have n0: "length (network LLM) = 0" by (simp add: LLM_def)
  have s0: "sentKeys LLM = []" by (simp add: LLM_def sentKeys_def)
  note inst = pending_slot_overwrite[OF en en en keyOf_def keyOf_def keyOf_def d1 d2 miss idle fresh
      typedA_def typedB_def typedC_def refl refl,
      of "http200 [''abacus'']" http500]
  from inst en d1 d2 show ?thesis by (simp add: n0 s0)
qed

end
